theory Spec2Isabelle
  imports Main
begin

section \<open>JavaScript values, errors and effects\<close>

text \<open>
  The page objects are asynchronous JavaScript methods that drive a browser through the
  Playwright \<^verbatim>\<open>page\<close> and \<^verbatim>\<open>locator\<close> objects. The browser is an external
  collaborator: every primitive it offers is a parameter of the model, acting on an
  abstract world \<open>'w\<close> and either resolving with a value or rejecting with an error.
  The methods themselves are embedded as functions from the world to a completion
  (\<open>Returns\<close> or \<open>Throws\<close>), the new world, and the list of events (browser calls
  with their outcome, and log lines) the method produced, in order.
\<close>

datatype js_error = JsError (err_name: string) (err_message: string)

text \<open>\<^verbatim>\<open>new Error(msg)\<close>.\<close>

definition new_Error :: "string \<Rightarrow> js_error" where
  "new_Error msg = JsError ''Error'' msg"

datatype 'a completion = Returns 'a | Throws js_error

text \<open>
  Locators: \<^verbatim>\<open>page.locator(sel)\<close>, \<^verbatim>\<open>l.first()\<close> and
  \<^verbatim>\<open>frame.locator(sel)\<close> (frames are numbered).
\<close>

datatype loc = Locator string | First loc | FrameLocator nat string

record goto_options =
  timeout :: int
  waitUntil :: string

record nav_options =
  nav_timeout :: "int option"
  nav_waitUntil :: "string option"
  nav_retries :: "int option"

record fill_options =
  validate :: "bool option"
  fill_timeout :: "int option"

record click_options =
  force :: "bool option"
  click_timeout :: "int option"

datatype log_level = Debug | Info | Warn | Err

datatype call =
    Goto string goto_options
  | WaitForLoadState string int
  | WaitForTimeout int
  | Screenshot string
  | WaitFor loc string "int option"
  | IsVisible loc int
  | IsEnabled loc
  | Clear loc
  | Fill loc string
  | InputValue loc
  | Click loc click_options
  | Count loc

datatype ret = RUnit | RBool bool | RStr string | RNum nat

datatype outcome = Resolved ret | Rejected js_error

text \<open>
  An event is a browser call together with what it answered, or a line written through
  \<^verbatim>\<open>logger\<close>. The text of a log line is not modelled, only its level; logging
  never throws.
\<close>

datatype event = Call call outcome | Log log_level

record 'w browser =
  page_goto :: "string \<Rightarrow> goto_options \<Rightarrow> 'w \<Rightarrow> unit completion \<times> 'w"
  page_waitForLoadState :: "string \<Rightarrow> int \<Rightarrow> 'w \<Rightarrow> unit completion \<times> 'w"
  page_waitForTimeout :: "int \<Rightarrow> 'w \<Rightarrow> unit completion \<times> 'w"
  page_screenshot :: "string \<Rightarrow> 'w \<Rightarrow> unit completion \<times> 'w"
  page_frames :: "'w \<Rightarrow> nat list"
  loc_waitFor :: "loc \<Rightarrow> string \<Rightarrow> int option \<Rightarrow> 'w \<Rightarrow> unit completion \<times> 'w"
  loc_isVisible :: "loc \<Rightarrow> int \<Rightarrow> 'w \<Rightarrow> bool completion \<times> 'w"
  loc_isEnabled :: "loc \<Rightarrow> 'w \<Rightarrow> bool completion \<times> 'w"
  loc_clear :: "loc \<Rightarrow> 'w \<Rightarrow> unit completion \<times> 'w"
  loc_fill :: "loc \<Rightarrow> string \<Rightarrow> 'w \<Rightarrow> unit completion \<times> 'w"
  loc_inputValue :: "loc \<Rightarrow> 'w \<Rightarrow> string completion \<times> 'w"
  loc_click :: "loc \<Rightarrow> click_options \<Rightarrow> 'w \<Rightarrow> unit completion \<times> 'w"
  loc_count :: "loc \<Rightarrow> 'w \<Rightarrow> nat completion \<times> 'w"

type_synonym ('w, 'a) js = "'w \<Rightarrow> 'a completion \<times> 'w \<times> event list"

definition js_return :: "'a \<Rightarrow> ('w, 'a) js" where
  "js_return a w = (Returns a, w, [])"

definition js_throw :: "js_error \<Rightarrow> ('w, 'a) js" where
  "js_throw e w = (Throws e, w, [])"

text \<open>Sequencing: the second statement runs only if the first did not throw.\<close>

definition js_bind :: "('w, 'a) js \<Rightarrow> ('a \<Rightarrow> ('w, 'b) js) \<Rightarrow> ('w, 'b) js" where
  "js_bind m f w =
     (case m w of
        (Returns a, w1, tr1) \<Rightarrow> (case f a w1 of (r, w2, tr2) \<Rightarrow> (r, w2, tr1 @ tr2))
      | (Throws e, w1, tr1) \<Rightarrow> (Throws e, w1, tr1))"

definition js_seq :: "('w, 'a) js \<Rightarrow> ('w, 'b) js \<Rightarrow> ('w, 'b) js" where
  "js_seq m n = js_bind m (\<lambda>_. n)"

text \<open>\<^verbatim>\<open>try { m } catch (e) { h(e) }\<close>.\<close>

definition js_try_catch :: "('w, 'a) js \<Rightarrow> (js_error \<Rightarrow> ('w, 'a) js) \<Rightarrow> ('w, 'a) js" where
  "js_try_catch m h w =
     (case m w of
        (Returns a, w1, tr1) \<Rightarrow> (Returns a, w1, tr1)
      | (Throws e, w1, tr1) \<Rightarrow> (case h e w1 of (r, w2, tr2) \<Rightarrow> (r, w2, tr1 @ tr2)))"

text \<open>Awaiting a browser primitive records the call and its outcome.\<close>

definition await_call :: "call \<Rightarrow> ('a \<Rightarrow> ret) \<Rightarrow> ('w \<Rightarrow> 'a completion \<times> 'w) \<Rightarrow> ('w, 'a) js" where
  "await_call c to_ret prim w =
     (case prim w of
        (Returns a, w1) \<Rightarrow> (Returns a, w1, [Call c (Resolved (to_ret a))])
      | (Throws e, w1) \<Rightarrow> (Throws e, w1, [Call c (Rejected e)]))"

definition logger :: "log_level \<Rightarrow> ('w, unit) js" where
  "logger lvl w = (Returns (), w, [Log lvl])"

definition pageGoto :: "'w browser \<Rightarrow> string \<Rightarrow> goto_options \<Rightarrow> ('w, unit) js" where
  "pageGoto B url g = await_call (Goto url g) (\<lambda>_. RUnit) (page_goto B url g)"

definition pageWaitForLoadState :: "'w browser \<Rightarrow> string \<Rightarrow> int \<Rightarrow> ('w, unit) js" where
  "pageWaitForLoadState B st t =
     await_call (WaitForLoadState st t) (\<lambda>_. RUnit) (page_waitForLoadState B st t)"

definition pageWaitForTimeout :: "'w browser \<Rightarrow> int \<Rightarrow> ('w, unit) js" where
  "pageWaitForTimeout B ms = await_call (WaitForTimeout ms) (\<lambda>_. RUnit) (page_waitForTimeout B ms)"

definition pageScreenshot :: "'w browser \<Rightarrow> string \<Rightarrow> ('w, unit) js" where
  "pageScreenshot B path = await_call (Screenshot path) (\<lambda>_. RUnit) (page_screenshot B path)"

definition locWaitFor :: "'w browser \<Rightarrow> loc \<Rightarrow> string \<Rightarrow> int option \<Rightarrow> ('w, unit) js" where
  "locWaitFor B l st t = await_call (WaitFor l st t) (\<lambda>_. RUnit) (loc_waitFor B l st t)"

definition locIsVisible :: "'w browser \<Rightarrow> loc \<Rightarrow> int \<Rightarrow> ('w, bool) js" where
  "locIsVisible B l t = await_call (IsVisible l t) RBool (loc_isVisible B l t)"

definition locIsEnabled :: "'w browser \<Rightarrow> loc \<Rightarrow> ('w, bool) js" where
  "locIsEnabled B l = await_call (IsEnabled l) RBool (loc_isEnabled B l)"

definition locClear :: "'w browser \<Rightarrow> loc \<Rightarrow> ('w, unit) js" where
  "locClear B l = await_call (Clear l) (\<lambda>_. RUnit) (loc_clear B l)"

definition locFill :: "'w browser \<Rightarrow> loc \<Rightarrow> string \<Rightarrow> ('w, unit) js" where
  "locFill B l text = await_call (Fill l text) (\<lambda>_. RUnit) (loc_fill B l text)"

definition locInputValue :: "'w browser \<Rightarrow> loc \<Rightarrow> ('w, string) js" where
  "locInputValue B l = await_call (InputValue l) RStr (loc_inputValue B l)"

definition locClick :: "'w browser \<Rightarrow> loc \<Rightarrow> click_options \<Rightarrow> ('w, unit) js" where
  "locClick B l opts = await_call (Click l opts) (\<lambda>_. RUnit) (loc_click B l opts)"

definition locCount :: "'w browser \<Rightarrow> loc \<Rightarrow> ('w, nat) js" where
  "locCount B l = await_call (Count l) RNum (loc_count B l)"

section \<open>Strings\<close>

text \<open>
  Messages are byte strings; \<open>toLowerCase\<close> maps the letters A to Z and leaves every
  other byte alone. \<open>str_includes s n\<close> is \<^verbatim>\<open>s.includes(n)\<close>.
\<close>

definition toLowerChar :: "char \<Rightarrow> char" where
  "toLowerChar c =
     (let n = (of_char c :: nat) in if 65 \<le> n \<and> n \<le> 90 then char_of (n + 32) else c)"

definition toLowerCase :: "string \<Rightarrow> string" where
  "toLowerCase s = map toLowerChar s"

fun startsWith :: "string \<Rightarrow> string \<Rightarrow> bool" where
  "startsWith s [] = True"
| "startsWith [] (n # ns) = False"
| "startsWith (c # cs) (n # ns) = (c = n \<and> startsWith cs ns)"

fun str_includes :: "string \<Rightarrow> string \<Rightarrow> bool" where
  "str_includes [] needle = (needle = [])"
| "str_includes (c # cs) needle = (startsWith (c # cs) needle \<or> str_includes cs needle)"

section \<open>BasePage\<close>

subsection \<open>waitForElement, isElementVisible\<close>

definition waitForElement :: "'w browser \<Rightarrow> loc \<Rightarrow> int option \<Rightarrow> ('w, unit) js" where
  "waitForElement B locator timeout_arg =
     (let timeout = (case timeout_arg of None \<Rightarrow> 30000 | Some t \<Rightarrow> t) in
      js_try_catch
        (js_seq (locWaitFor B locator ''visible'' (Some timeout)) (logger Info))
        (\<lambda>error. js_seq (logger Err)
           (js_throw (new_Error (''Element wait timeout: '' @ err_message error)))))"

definition isElementVisible :: "'w browser \<Rightarrow> loc \<Rightarrow> int option \<Rightarrow> ('w, bool) js" where
  "isElementVisible B locator timeout_arg =
     (let timeout = (case timeout_arg of None \<Rightarrow> 5000 | Some t \<Rightarrow> t) in
      js_try_catch
        (js_seq (locWaitFor B locator ''visible'' (Some timeout))
           (js_seq (logger Debug) (js_return True)))
        (\<lambda>error. js_seq (logger Debug) (js_return False)))"

subsection \<open>goto\<close>

text \<open>
  The error test of the \<^verbatim>\<open>catch\<close> block of \<open>goto\<close>: the lower-cased message
  contains one of the listed fragments, or the error is a \<^verbatim>\<open>TimeoutError\<close>.
\<close>

definition isNetworkError :: "js_error \<Rightarrow> bool" where
  "isNetworkError error =
     (let errorMessage = toLowerCase (err_message error) in
      str_includes errorMessage ''err_http2_protocol_error'' \<or>
      str_includes errorMessage ''net::'' \<or>
      str_includes errorMessage ''navigation timeout'' \<or>
      str_includes errorMessage ''timeout'' \<or>
      str_includes errorMessage ''err_connection'' \<or>
      str_includes errorMessage ''timeout exceeded'' \<or>
      str_includes errorMessage ''page.goto'' \<or>
      err_name error = ''TimeoutError'')"

text \<open>
  \<^verbatim>\<open>options.retries || 3\<close> and \<^verbatim>\<open>options.timeout || 120000\<close>: an absent or
  zero option takes the default. Attempt numbers and durations are integers; a negative
  \<^verbatim>\<open>retries\<close> is kept as it is.
\<close>

definition maxRetries_of :: "nav_options \<Rightarrow> int" where
  "maxRetries_of options =
     (case nav_retries options of None \<Rightarrow> 3 | Some r \<Rightarrow> if r = 0 then 3 else r)"

definition initial_gotoOptions :: "nav_options \<Rightarrow> goto_options" where
  "initial_gotoOptions options =
     \<lparr> timeout = (case nav_timeout options of None \<Rightarrow> 120000
                    | Some t \<Rightarrow> if t = 0 then 120000 else t),
       waitUntil = (case nav_waitUntil options of None \<Rightarrow> ''domcontentloaded''
                    | Some u \<Rightarrow> if u = [] then ''domcontentloaded'' else u) \<rparr>"

text \<open>
  What one iteration of the \<^verbatim>\<open>for\<close> loop decides: \<open>Return\<close> leaves the method,
  \<open>Continue g\<close> goes to the next attempt with the (mutated) options \<open>g\<close>; a throw is
  the completion \<open>Throws\<close>.
\<close>

datatype 'a loop_ctl = Return | Continue 'a

definition waitUntil_for :: "int \<Rightarrow> goto_options \<Rightarrow> goto_options" where
  "waitUntil_for attempt gotoOptions =
     (let g = (if attempt = 1 then gotoOptions\<lparr>waitUntil := ''domcontentloaded''\<rparr>
               else if attempt = 2 then gotoOptions\<lparr>waitUntil := ''load''\<rparr>
               else gotoOptions\<lparr>waitUntil := ''networkidle''\<rparr>)
      in if attempt > 3 then g\<lparr>waitUntil := ''networkidle''\<rparr> else g)"

definition goto_catch ::
  "'w browser \<Rightarrow> string \<Rightarrow> int \<Rightarrow> int \<Rightarrow> goto_options \<Rightarrow> js_error \<Rightarrow> ('w, goto_options loop_ctl) js" where
  "goto_catch B url maxRetries attempt gotoOptions error =
     (let errorMessage = toLowerCase (err_message error) in
      if isNetworkError error \<and> attempt < maxRetries then
        (let waitTime = min (attempt * 2000) 10000 in
         js_seq (logger Warn)
           (js_bind
              (if str_includes errorMessage ''timeout''
               then js_seq (logger Info)
                      (js_return (gotoOptions\<lparr>timeout := max 60000 (timeout gotoOptions - 20000)\<rparr>))
               else js_return gotoOptions)
              (\<lambda>gotoOptions.
                 js_seq
                   (if str_includes errorMessage ''err_http2_protocol_error''
                    then pageWaitForTimeout B 2000 else js_return ())
                   (js_seq
                      (if str_includes (err_message error) ''ERR_CONNECTION_RESET''
                       then pageWaitForTimeout B (waitTime * 2)
                       else pageWaitForTimeout B waitTime)
                      (js_return (Continue gotoOptions))))))
      else if attempt \<ge> maxRetries then js_seq (logger Err) (js_throw error)
      else js_throw error)"

definition goto_attempt ::
  "'w browser \<Rightarrow> string \<Rightarrow> int \<Rightarrow> int \<Rightarrow> goto_options \<Rightarrow> ('w, goto_options loop_ctl) js" where
  "goto_attempt B url maxRetries attempt gotoOptions =
     (let gotoOptions = waitUntil_for attempt gotoOptions in
      js_try_catch
        (js_seq (pageGoto B url gotoOptions)
           (js_seq (logger Info)
              (js_seq
                 (js_try_catch (pageWaitForLoadState B ''domcontentloaded'' 10000)
                    (\<lambda>e. js_return ()))
                 (js_return Return))))
        (goto_catch B url maxRetries attempt gotoOptions))"

function goto_loop ::
  "'w browser \<Rightarrow> string \<Rightarrow> int \<Rightarrow> int \<Rightarrow> goto_options \<Rightarrow> ('w, unit) js" where
  "goto_loop B url maxRetries attempt gotoOptions =
     (if attempt \<le> maxRetries then
        js_bind (goto_attempt B url maxRetries attempt gotoOptions)
          (\<lambda>c. case c of
                  Return \<Rightarrow> js_return ()
                | Continue g \<Rightarrow> goto_loop B url maxRetries (attempt + 1) g)
      else js_return ())"
  by pat_completeness auto
termination
  by (relation "measure (\<lambda>(B, url, maxRetries, attempt, g). nat (maxRetries + 1 - attempt))") auto

declare goto_loop.simps [simp del]

definition goto :: "'w browser \<Rightarrow> string \<Rightarrow> nav_options \<Rightarrow> ('w, unit) js" where
  "goto B url options =
     goto_loop B url (maxRetries_of options) 1 (initial_gotoOptions options)"

subsection \<open>fillInput, clickElement\<close>

text \<open>The error of a failed read-back, with the message of the template string.\<close>

definition validation_error :: "string \<Rightarrow> string \<Rightarrow> js_error" where
  \<open>validation_error text enteredValue =
     new_Error (''Input validation failed. Expected: "'' @ text @ ''", Got: "'' @ enteredValue @ ''"'')\<close>

definition fillInput :: "'w browser \<Rightarrow> loc \<Rightarrow> string \<Rightarrow> fill_options \<Rightarrow> ('w, unit) js" where
  \<open>fillInput B locator text options =
     js_try_catch
       (js_seq (waitForElement B locator (fill_timeout options))
          (js_seq (locClear B locator)
             (js_seq (locFill B locator text)
                (js_seq
                   (if validate options \<noteq> Some False then
                      js_bind (locInputValue B locator)
                        (\<lambda>enteredValue.
                           if enteredValue \<noteq> text then
                             js_throw (validation_error text enteredValue)
                           else js_return ())
                    else js_return ())
                   (logger Info)))))
       (\<lambda>error. js_seq (logger Err) (js_throw error))\<close>

definition clickElement :: "'w browser \<Rightarrow> loc \<Rightarrow> click_options \<Rightarrow> ('w, unit) js" where
  "clickElement B locator options =
     js_try_catch
       (js_seq (waitForElement B locator (click_timeout options))
          (js_seq
             (if force options \<noteq> Some True then
                js_seq (locWaitFor B locator ''attached'' None)
                  (js_bind (locIsEnabled B locator)
                     (\<lambda>isEnabled.
                        if \<not> isEnabled then js_throw (new_Error ''Element is not enabled'')
                        else js_return ()))
              else js_return ())
             (js_seq (locClick B locator options) (logger Info))))
       (\<lambda>error. js_seq (logger Err) (js_throw error))"

section \<open>LoginPage\<close>

text \<open>The locators of the constructor that \<open>login\<close> uses.\<close>

definition usernameInput :: loc where
  \<open>usernameInput = First (Locator ''input[name="username"], input[name="email"], input[type="email"], input[id*="username" i], input[id*="email" i], input[id*="user" i], input[placeholder*="username" i], input[placeholder*="email" i], input[placeholder*="user" i], input[aria-label*="username" i], input[aria-label*="email" i]'')\<close>

definition usernameSelectors :: "loc list" where
  \<open>usernameSelectors =
     [usernameInput,
      Locator ''input[type="email"]'',
      Locator ''input[name*="user" i]'',
      Locator ''input[name*="email" i]'',
      Locator ''input[id*="user" i]'',
      Locator ''input[id*="email" i]'',
      Locator ''input[placeholder*="user" i]'',
      Locator ''input[placeholder*="email" i]'']\<close>

text \<open>
  \<open>login\<close>, the loop over \<^verbatim>\<open>usernameSelectors\<close>: each selector is waited for
  (visible, 10 s); the first that resolves becomes \<^verbatim>\<open>usernameField\<close> and ends the
  loop (\<^verbatim>\<open>break\<close>), a rejection is caught and the loop goes on. The result is the
  value of \<^verbatim>\<open>usernameField\<close> after the loop (\<open>None\<close> is \<^verbatim>\<open>null\<close>).
\<close>

fun login_usernameLoop :: "'w browser \<Rightarrow> loc list \<Rightarrow> ('w, loc option) js" where
  "login_usernameLoop B [] = js_return None"
| "login_usernameLoop B (selector # rest) =
     js_bind
       (js_try_catch
          (js_seq (locWaitFor B selector ''visible'' (Some 10000))
             (js_seq (logger Info) (js_return (Some selector))))
          (\<lambda>error. js_seq (logger Debug) (js_return None)))
       (\<lambda>usernameField. case usernameField of
            Some f \<Rightarrow> js_return (Some f)
          | None \<Rightarrow> login_usernameLoop B rest)"

text \<open>
  \<open>login\<close>, from the declaration of \<^verbatim>\<open>usernameField\<close> up to the call of
  \<open>fillInput\<close>: the loop, then the last resort (any email input) or the error.
\<close>

definition login_findUsernameField :: "'w browser \<Rightarrow> loc list \<Rightarrow> ('w, loc) js" where
  \<open>login_findUsernameField B selectors =
     js_bind (login_usernameLoop B selectors)
       (\<lambda>usernameField. case usernameField of
            Some f \<Rightarrow> js_return f
          | None \<Rightarrow>
              js_bind (locCount B (Locator ''input[type="email"]''))
                (\<lambda>emailInputs.
                   if emailInputs > 0 then js_return (First (Locator ''input[type="email"]''))
                   else js_throw (new_Error ''Username field not found on the page'')))\<close>

text \<open>
  \<open>login\<close>, the block entered when no password selector matched
  (\<^verbatim>\<open>if (!passwordField)\<close>): a guarded search over the page and its frames, then a
  screenshot and the error when the field is still missing.
\<close>

fun login_frameLoop :: "'w browser \<Rightarrow> nat list \<Rightarrow> ('w, loc option) js" where
  "login_frameLoop B [] = js_return None"
| \<open>login_frameLoop B (frame # rest) =
     js_bind
       (js_try_catch
          (js_bind (locCount B (FrameLocator frame ''input[type="password"]''))
             (\<lambda>framePasswordInputs.
                if framePasswordInputs > 0
                then js_seq (logger Info)
                       (js_return (Some (First (FrameLocator frame ''input[type="password"]''))))
                else js_return None))
          (\<lambda>e. js_return None))
       (\<lambda>passwordField. case passwordField of
            Some f \<Rightarrow> js_return (Some f)
          | None \<Rightarrow> login_frameLoop B rest)\<close>

definition login_passwordLastResort :: "'w browser \<Rightarrow> ('w, loc) js" where
  \<open>login_passwordLastResort B =
     js_bind
       (js_try_catch
          (js_bind (locCount B (Locator ''input[type="password"]''))
             (\<lambda>allPasswordInputs.
                if allPasswordInputs > 0
                then js_seq (logger Info)
                       (js_return (Some (First (Locator ''input[type="password"]''))))
                else (\<lambda>w. login_frameLoop B (page_frames B w) w)))
          (\<lambda>e. js_return None))
       (\<lambda>passwordField. case passwordField of
            Some f \<Rightarrow> js_return f
          | None \<Rightarrow>
              js_seq (pageScreenshot B ''test-results/password-field-not-found.png'')
                (js_throw (new_Error
                   ''Password field not found on the page after trying all selectors'')))\<close>

section \<open>FormPage\<close>

definition formNameInput :: loc where
  \<open>formNameInput = First (Locator ''input[name*="name" i], input[id*="name" i], input[placeholder*="name" i], input[aria-label*="name" i]'')\<close>

definition nameInputSelectors :: "loc list" where
  \<open>nameInputSelectors =
     [formNameInput,
      First (Locator ''input[name*="name" i]''),
      First (Locator ''input[placeholder*="name" i]''),
      First (Locator ''input[placeholder*="Name" i]''),
      First (Locator ''input[placeholder*="Untitled" i]''),
      First (Locator ''input[id*="name" i]''),
      First (Locator ''input[type="text"]''),
      First (Locator ''input'')]\<close>

text \<open>
  \<open>fillFormCreationForm\<close>, the loop over \<^verbatim>\<open>nameInputSelectors\<close>:
  \<^verbatim>\<open>selector.isVisible({ timeout: 5000 }).catch(() => false)\<close> inside a
  \<^verbatim>\<open>try\<close> whose \<^verbatim>\<open>catch\<close> is empty. The result is \<^verbatim>\<open>nameInput\<close> after the
  loop; \<^verbatim>\<open>nameInputFound\<close> is true exactly when it is not \<^verbatim>\<open>null\<close>.
\<close>

fun form_nameInputLoop :: "'w browser \<Rightarrow> loc list \<Rightarrow> ('w, loc option) js" where
  "form_nameInputLoop B [] = js_return None"
| "form_nameInputLoop B (selector # rest) =
     js_bind
       (js_try_catch
          (js_bind (js_try_catch (locIsVisible B selector 5000) (\<lambda>e. js_return False))
             (\<lambda>isVisible.
                if isVisible then js_seq (logger Info) (js_return (Some selector))
                else js_return None))
          (\<lambda>e. js_return None))
       (\<lambda>nameInput. case nameInput of
            Some f \<Rightarrow> js_return (Some f)
          | None \<Rightarrow> form_nameInputLoop B rest)"

text \<open>
  \<open>fillFormCreationForm\<close>, from the declaration of \<^verbatim>\<open>nameInputSelectors\<close> up to
  the update of \<^verbatim>\<open>this.formNameInput\<close>: the loop, then on failure the screenshot
  (its rejection discarded by \<^verbatim>\<open>.catch(() => {})\<close>) and the error.
\<close>

definition form_findNameInput :: "'w browser \<Rightarrow> loc list \<Rightarrow> ('w, loc) js" where
  "form_findNameInput B selectors =
     js_bind (form_nameInputLoop B selectors)
       (\<lambda>nameInput. case nameInput of
            Some f \<Rightarrow> js_return f
          | None \<Rightarrow>
              js_seq
                (js_try_catch (pageScreenshot B ''test-results/form-input-not-found.png'')
                   (\<lambda>e. js_return ()))
                (js_throw (new_Error
                   ''Form name input field not found. Form may not have loaded.'')))"

section \<open>Reading a trace\<close>

text \<open>The options of the \<^verbatim>\<open>page.goto\<close> calls of a trace, in order: one per attempt.\<close>

fun goto_calls :: "event list \<Rightarrow> goto_options list" where
  "goto_calls [] = []"
| "goto_calls (Call (Goto url g) r # tr) = g # goto_calls tr"
| "goto_calls (ev # tr) = goto_calls tr"

text \<open>
  The waits between successive \<^verbatim>\<open>page.goto\<close> calls: for each pair of neighbouring
  calls the sum of the \<^verbatim>\<open>page.waitForTimeout\<close> durations between them. The
  accumulator is \<open>None\<close> before the first call.
\<close>

fun backoffs_acc :: "int option \<Rightarrow> event list \<Rightarrow> int list" where
  "backoffs_acc acc [] = []"
| "backoffs_acc acc (Call (Goto url g) r # tr) =
     (case acc of None \<Rightarrow> [] | Some d \<Rightarrow> [d]) @ backoffs_acc (Some 0) tr"
| "backoffs_acc acc (Call (WaitForTimeout ms) r # tr) =
     backoffs_acc (map_option (\<lambda>d. d + ms) acc) tr"
| "backoffs_acc acc (ev # tr) = backoffs_acc acc tr"

definition backoffs :: "event list \<Rightarrow> int list" where
  "backoffs tr = backoffs_acc None tr"

text \<open>
  The probes of a trace, in order: each wait for a locator or visibility query, with
  whether it succeeded (the wait resolved, the query answered true).
\<close>

fun probes :: "event list \<Rightarrow> (loc \<times> bool) list" where
  "probes [] = []"
| "probes (Call (WaitFor l st t) r # tr) = (l, r = Resolved RUnit) # probes tr"
| "probes (Call (IsVisible l t) r # tr) = (l, r = Resolved (RBool True)) # probes tr"
| "probes (ev # tr) = probes tr"

text \<open>The levels of the log lines of a trace, in order.\<close>

fun log_lines :: "event list \<Rightarrow> log_level list" where
  "log_lines [] = []"
| "log_lines (Log lvl # tr) = lvl # log_lines tr"
| "log_lines (ev # tr) = log_lines tr"

text \<open>The errors of the rejected \<^verbatim>\<open>page.goto\<close> calls of a trace, in order.\<close>

fun goto_failures :: "event list \<Rightarrow> js_error list" where
  "goto_failures [] = []"
| "goto_failures (Call (Goto url g) (Rejected e) # tr) = e # goto_failures tr"
| "goto_failures (ev # tr) = goto_failures tr"

text \<open>The sum of the \<^verbatim>\<open>page.waitForTimeout\<close> durations of a trace.\<close>

fun wait_sum :: "event list \<Rightarrow> int" where
  "wait_sum [] = 0"
| "wait_sum (Call (WaitForTimeout ms) r # tr) = ms + wait_sum tr"
| "wait_sum (ev # tr) = wait_sum tr"

text \<open>A trace that begins with a \<^verbatim>\<open>page.goto\<close> call.\<close>

definition starts_with_goto :: "event list \<Rightarrow> bool" where
  "starts_with_goto tr = (case tr of Call (Goto u g) r # rest \<Rightarrow> True | _ \<Rightarrow> False)"

text \<open>Events that a selector loop may produce: probes and log lines.\<close>

fun probe_or_log :: "event \<Rightarrow> bool" where
  "probe_or_log (Log lvl) = True"
| "probe_or_log (Call (WaitFor l st t) r) = True"
| "probe_or_log (Call (IsVisible l t) r) = True"
| "probe_or_log ev = False"

section \<open>Notions used in the properties\<close>

text \<open>
  The wait-until condition of each attempt, numbered from 1: content loaded, then full
  load, then network idle from the third attempt on.
\<close>

definition escalation :: "nat \<Rightarrow> string" where
  "escalation n = (if n = 1 then ''domcontentloaded'' else if n = 2 then ''load'' else ''networkidle'')"

text \<open>
  The two tests of the \<^verbatim>\<open>catch\<close> block of \<open>goto\<close> that set the wait before the
  next attempt: whether the lower-cased message contains \<^verbatim>\<open>err_http2_protocol_error\<close>
  (an extra 2 s), and whether the message contains \<^verbatim>\<open>ERR_CONNECTION_RESET\<close> (the wait
  is doubled). This is finer than the test \<open>isNetworkError\<close>: a connection reset and a
  refused connection are both network errors and differ on the second test.
\<close>

definition wait_tests :: "js_error \<Rightarrow> bool \<times> bool" where
  "wait_tests error =
     (str_includes (toLowerCase (err_message error)) ''err_http2_protocol_error'',
      str_includes (err_message error) ''ERR_CONNECTION_RESET'')"

text \<open>The wait after attempt \<open>a\<close> when its error answers the two tests with \<open>c\<close>.\<close>

definition backoff_for :: "bool \<times> bool \<Rightarrow> int \<Rightarrow> int" where
  "backoff_for c a =
     (if fst c then 2000 else 0) +
     (if snd c then min (a * 2000) 10000 * 2 else min (a * 2000) 10000)"

text \<open>The waits that follow the failed attempts \<open>a\<close>, \<open>a + 1\<close>, ... with the given errors.\<close>

fun expected_waits :: "int \<Rightarrow> js_error list \<Rightarrow> int list" where
  "expected_waits a [] = []"
| "expected_waits a (e # es) = backoff_for (wait_tests e) a # expected_waits (a + 1) es"

text \<open>
  The invariant of the loop of \<open>goto\<close> for the trace produced from attempt \<open>a\<close> on:
  it begins with an attempt if one is due, and its waits are the expected waits of its
  first failures.
\<close>

definition wait_inv :: "int \<Rightarrow> int \<Rightarrow> event list \<Rightarrow> bool" where
  "wait_inv M a tr =
     ((a \<le> M \<longrightarrow> starts_with_goto tr) \<and>
      (\<exists>n. backoffs_acc None tr = take n (expected_waits a (goto_failures tr))))"

text \<open>
  What the probes of a selector loop look like when the loop stops at the first success:
  the candidates before the match, each probed and failed, then the match; or every
  candidate probed and failed when the result is \<^verbatim>\<open>null\<close>.
\<close>

definition probed_until_first_match :: "loc list \<Rightarrow> loc option \<Rightarrow> (loc \<times> bool) list \<Rightarrow> bool" where
  "probed_until_first_match cands res ps =
     (case res of
        Some c \<Rightarrow> (\<exists>n < length cands. cands ! n = c \<and>
                     ps = map (\<lambda>x. (x, False)) (take n cands) @ [(c, True)])
      | None \<Rightarrow> ps = map (\<lambda>x. (x, False)) cands)"

text \<open>
  A postcondition on the completion and the trace of a method, for every world it may
  start in: \<open>R\<close> when it returns, \<open>T\<close> when it throws.
\<close>

definition post ::
  "('w, 'a) js \<Rightarrow> ('a \<Rightarrow> event list \<Rightarrow> bool) \<Rightarrow> (js_error \<Rightarrow> event list \<Rightarrow> bool) \<Rightarrow> bool" where
  "post m R T =
     (\<forall>w. case m w of (Returns a, w1, tr) \<Rightarrow> R a tr | (Throws e, w1, tr) \<Rightarrow> T e tr)"

section \<open>Example pages\<close>

text \<open>
  Concrete browsers on which the properties are instantiated. \<open>blank_page\<close> shows
  nothing: every wait for a locator times out, nothing is visible or enabled and every
  count is zero. The others change some answers of it: a navigation that fails with a
  given error, one element that is shown (but not enabled), a selector whose probe
  throws, a screenshot that fails.
\<close>

definition goto_timeout :: js_error where
  "goto_timeout = JsError ''TimeoutError'' ''page.goto: Timeout 90000ms exceeded.''"

definition connection_refused :: js_error where
  "connection_refused = JsError ''Error'' ''page.goto: net::ERR_CONNECTION_REFUSED''"

definition connection_reset :: js_error where
  "connection_reset = JsError ''Error'' ''page.goto: net::ERR_CONNECTION_RESET at https://example.test/#/login''"

definition invalid_url :: js_error where
  "invalid_url = JsError ''Error'' ''Cannot navigate to invalid URL''"

definition locator_timeout :: js_error where
  "locator_timeout = JsError ''TimeoutError'' ''locator.waitFor: Timeout 10000ms exceeded.''"

definition bad_selector :: js_error where
  "bad_selector = JsError ''Error'' ''Unexpected token while parsing selector''"

definition disk_full :: js_error where
  "disk_full = JsError ''Error'' ''ENOSPC: no space left on device''"

definition blank_page :: "unit browser" where
  "blank_page =
     \<lparr> page_goto = (\<lambda>url g w. (Returns (), w)),
       page_waitForLoadState = (\<lambda>st t w. (Returns (), w)),
       page_waitForTimeout = (\<lambda>ms w. (Returns (), w)),
       page_screenshot = (\<lambda>path w. (Returns (), w)),
       page_frames = (\<lambda>w. [0]),
       loc_waitFor = (\<lambda>l st t w. (Throws locator_timeout, w)),
       loc_isVisible = (\<lambda>l t w. (Returns False, w)),
       loc_isEnabled = (\<lambda>l w. (Returns False, w)),
       loc_clear = (\<lambda>l w. (Returns (), w)),
       loc_fill = (\<lambda>l text w. (Returns (), w)),
       loc_inputValue = (\<lambda>l w. (Returns [], w)),
       loc_click = (\<lambda>l opts w. (Returns (), w)),
       loc_count = (\<lambda>l w. (Returns 0, w)) \<rparr>"

definition offline_page :: "js_error \<Rightarrow> unit browser" where
  "offline_page e = blank_page\<lparr>page_goto := (\<lambda>url g w. (Throws e, w))\<rparr>"

definition page_showing :: "loc \<Rightarrow> unit browser" where
  "page_showing m =
     blank_page\<lparr>loc_waitFor := (\<lambda>l st t w. if l = m then (Returns (), w) else (Throws locator_timeout, w)),
                loc_isVisible := (\<lambda>l t w. (Returns (l = m), w))\<rparr>"

definition page_rejecting :: "loc \<Rightarrow> loc \<Rightarrow> unit browser" where
  "page_rejecting bad m =
     blank_page\<lparr>loc_waitFor := (\<lambda>l st t w. if l = bad then (Throws bad_selector, w)
                                           else if l = m then (Returns (), w)
                                           else (Throws locator_timeout, w)),
                loc_isVisible := (\<lambda>l t w. if l = bad then (Throws bad_selector, w)
                                             else (Returns (l = m), w))\<rparr>"

definition full_disk_page :: "unit browser" where
  "full_disk_page = blank_page\<lparr>page_screenshot := (\<lambda>path w. (Throws disk_full, w))\<rparr>"

text \<open>
  A page with one text input that keeps at most \<open>n\<close> characters; the world is the
  current value of the input.
\<close>

definition maxlength_input :: "nat \<Rightarrow> string browser" where
  "maxlength_input n =
     \<lparr> page_goto = (\<lambda>url g w. (Returns (), w)),
       page_waitForLoadState = (\<lambda>st t w. (Returns (), w)),
       page_waitForTimeout = (\<lambda>ms w. (Returns (), w)),
       page_screenshot = (\<lambda>path w. (Returns (), w)),
       page_frames = (\<lambda>w. [0]),
       loc_waitFor = (\<lambda>l st t w. (Returns (), w)),
       loc_isVisible = (\<lambda>l t w. (Returns True, w)),
       loc_isEnabled = (\<lambda>l w. (Returns True, w)),
       loc_clear = (\<lambda>l w. (Returns (), [])),
       loc_fill = (\<lambda>l text w. (Returns (), take n text)),
       loc_inputValue = (\<lambda>l w. (Returns w, w)),
       loc_click = (\<lambda>l opts w. (Returns (), w)),
       loc_count = (\<lambda>l w. (Returns 1, w)) \<rparr>"

text \<open>
  A page whose navigation always fails with a connection error: a reset on the second
  attempt, a refused connection on every other one; the world counts the
  \<^verbatim>\<open>page.goto\<close> calls.
\<close>

definition unstable_page :: "nat browser" where
  "unstable_page =
     \<lparr> page_goto = (\<lambda>url g n. (Throws (if n = 1 then connection_reset else connection_refused), Suc n)),
       page_waitForLoadState = (\<lambda>st t w. (Returns (), w)),
       page_waitForTimeout = (\<lambda>ms w. (Returns (), w)),
       page_screenshot = (\<lambda>path w. (Returns (), w)),
       page_frames = (\<lambda>w. [0]),
       loc_waitFor = (\<lambda>l st t w. (Throws locator_timeout, w)),
       loc_isVisible = (\<lambda>l t w. (Returns False, w)),
       loc_isEnabled = (\<lambda>l w. (Returns False, w)),
       loc_clear = (\<lambda>l w. (Returns (), w)),
       loc_fill = (\<lambda>l text w. (Returns (), w)),
       loc_inputValue = (\<lambda>l w. (Returns [], w)),
       loc_click = (\<lambda>l opts w. (Returns (), w)),
       loc_count = (\<lambda>l w. (Returns 0, w)) \<rparr>"

text \<open>The options \<open>navigateToLogin\<close> passes to \<open>goto\<close>, and options with five retries.\<close>

definition navigateToLogin_options :: nav_options where
  "navigateToLogin_options =
     \<lparr> nav_timeout = Some 90000, nav_waitUntil = Some ''domcontentloaded'', nav_retries = Some 3 \<rparr>"

definition five_retries :: nav_options where
  "five_retries = \<lparr> nav_timeout = None, nav_waitUntil = None, nav_retries = Some 5 \<rparr>"

definition default_click :: click_options where
  "default_click = \<lparr> force = None, click_timeout = None \<rparr>"

definition default_fill :: fill_options where
  "default_fill = \<lparr> validate = None, fill_timeout = None \<rparr>"

definition id_user_input :: loc where
  \<open>id_user_input = Locator ''input[id*="user" i]''\<close>

definition text_input :: loc where
  \<open>text_input = First (Locator ''input[type="text"]'')\<close>

section \<open>Reasoning about methods\<close>

lemmas js_defs = js_bind_def js_seq_def js_try_catch_def js_return_def js_throw_def
  await_call_def logger_def

lemma postI:
  assumes "\<And>w a w1 tr. m w = (Returns a, w1, tr) \<Longrightarrow> R a tr"
    and "\<And>w e w1 tr. m w = (Throws e, w1, tr) \<Longrightarrow> T e tr"
  shows "post m R T"
  unfolding post_def using assms by (auto split: prod.splits completion.splits)

lemma post_Returns: "post m R T \<Longrightarrow> m w = (Returns a, w1, tr) \<Longrightarrow> R a tr"
  unfolding post_def by (drule spec[of _ w]) simp

lemma post_Throws: "post m R T \<Longrightarrow> m w = (Throws e, w1, tr) \<Longrightarrow> T e tr"
  unfolding post_def by (drule spec[of _ w]) simp

lemma post_weaken:
  assumes "post m R' T'" and "\<And>a tr. R' a tr \<Longrightarrow> R a tr" and "\<And>e tr. T' e tr \<Longrightarrow> T e tr"
  shows "post m R T"
  using assms unfolding post_def by (auto split: prod.splits completion.splits)

lemma post_conj:
  assumes "post m R1 T1" and "post m R2 T2"
  shows "post m (\<lambda>a tr. R1 a tr \<and> R2 a tr) (\<lambda>e tr. T1 e tr \<and> T2 e tr)"
  using assms unfolding post_def by (auto split: prod.splits completion.splits)

lemma post_total:
  assumes "post m R (\<lambda>e tr. False)"
  shows "\<exists>a. fst (m w) = Returns a \<and> R a (snd (snd (m w)))"
proof -
  obtain r w1 tr where run: "m w = (r, w1, tr)" by (cases "m w") auto
  show ?thesis
  proof (cases r)
    case (Returns a)
    with post_Returns[OF assms] run show ?thesis by simp
  next
    case (Throws e)
    with post_Throws[OF assms] run show ?thesis by simp
  qed
qed

lemma post_return: "R a [] \<Longrightarrow> post (js_return a) R T"
  by (simp add: post_def js_return_def)

lemma post_throw: "T e [] \<Longrightarrow> post (js_throw e) R T"
  by (simp add: post_def js_throw_def)

lemma post_logger: "R () [Log lvl] \<Longrightarrow> post (logger lvl) R T"
  by (simp add: post_def logger_def)

lemma post_bind:
  assumes "post m (\<lambda>a tr. post (f a) (\<lambda>b tr'. R b (tr @ tr')) (\<lambda>e tr'. T e (tr @ tr'))) T"
  shows "post (js_bind m f) R T"
proof (rule postI)
  fix w b w2 tr assume h: "js_bind m f w = (Returns b, w2, tr)"
  obtain r w1 tr1 where m: "m w = (r, w1, tr1)" by (cases "m w") auto
  show "R b tr"
  proof (cases r)
    case (Returns a)
    obtain r' w' tr2 where f: "f a w1 = (r', w', tr2)" by (cases "f a w1") auto
    from h m Returns f have eq: "r' = Returns b" "tr = tr1 @ tr2" by (auto simp: js_bind_def)
    from post_Returns[OF assms] m Returns
    have "post (f a) (\<lambda>b tr'. R b (tr1 @ tr')) (\<lambda>e tr'. T e (tr1 @ tr'))" by simp
    from post_Returns[OF this] f eq show ?thesis by simp
  next
    case (Throws e)
    with h m show ?thesis by (simp add: js_bind_def)
  qed
next
  fix w e w2 tr assume h: "js_bind m f w = (Throws e, w2, tr)"
  obtain r w1 tr1 where m: "m w = (r, w1, tr1)" by (cases "m w") auto
  show "T e tr"
  proof (cases r)
    case (Returns a)
    obtain r' w' tr2 where f: "f a w1 = (r', w', tr2)" by (cases "f a w1") auto
    from h m Returns f have eq: "r' = Throws e" "tr = tr1 @ tr2" by (auto simp: js_bind_def)
    from post_Returns[OF assms] m Returns
    have "post (f a) (\<lambda>b tr'. R b (tr1 @ tr')) (\<lambda>e tr'. T e (tr1 @ tr'))" by simp
    from post_Throws[OF this] f eq show ?thesis by simp
  next
    case (Throws e')
    with h m have "e' = e" "tr = tr1" by (auto simp: js_bind_def)
    with post_Throws[OF assms] m Throws show ?thesis by simp
  qed
qed

lemma post_seq:
  assumes "post m (\<lambda>a tr. post n (\<lambda>b tr'. R b (tr @ tr')) (\<lambda>e tr'. T e (tr @ tr'))) T"
  shows "post (js_seq m n) R T"
  unfolding js_seq_def using assms by (rule post_bind)

lemma post_try_catch:
  assumes "post m R (\<lambda>e tr. post (h e) (\<lambda>b tr'. R b (tr @ tr')) (\<lambda>e' tr'. T e' (tr @ tr')))"
  shows "post (js_try_catch m h) R T"
proof (rule postI)
  fix w b w2 tr assume h: "js_try_catch m h w = (Returns b, w2, tr)"
  obtain r w1 tr1 where m: "m w = (r, w1, tr1)" by (cases "m w") auto
  show "R b tr"
  proof (cases r)
    case (Returns a)
    with h m have "a = b" "tr = tr1" by (auto simp: js_try_catch_def)
    with post_Returns[OF assms] m Returns show ?thesis by simp
  next
    case (Throws e)
    obtain r' w' tr2 where f: "h e w1 = (r', w', tr2)" by (cases "h e w1") auto
    from h m Throws f have eq: "r' = Returns b" "tr = tr1 @ tr2" by (auto simp: js_try_catch_def)
    from post_Throws[OF assms] m Throws
    have "post (h e) (\<lambda>b tr'. R b (tr1 @ tr')) (\<lambda>e tr'. T e (tr1 @ tr'))" by simp
    from post_Returns[OF this] f eq show ?thesis by simp
  qed
next
  fix w e w2 tr assume h: "js_try_catch m h w = (Throws e, w2, tr)"
  obtain r w1 tr1 where m: "m w = (r, w1, tr1)" by (cases "m w") auto
  show "T e tr"
  proof (cases r)
    case (Returns a)
    with h m show ?thesis by (simp add: js_try_catch_def)
  next
    case (Throws e')
    obtain r' w' tr2 where f: "h e' w1 = (r', w', tr2)" by (cases "h e' w1") auto
    from h m Throws f have eq: "r' = Throws e" "tr = tr1 @ tr2" by (auto simp: js_try_catch_def)
    from post_Throws[OF assms] m Throws
    have "post (h e') (\<lambda>b tr'. R b (tr1 @ tr')) (\<lambda>e tr'. T e (tr1 @ tr'))" by simp
    from post_Throws[OF this] f eq show ?thesis by simp
  qed
qed

lemma post_await:
  assumes "\<And>a. R a [Call c (Resolved (to_ret a))]" and "\<And>e. T e [Call c (Rejected e)]"
  shows "post (await_call c to_ret prim) R T"
  unfolding post_def await_call_def using assms by (auto split: prod.splits completion.splits)

lemma post_await_known:
  assumes "\<And>w. P (fst (prim w))"
    and "\<And>a. P (Returns a) \<Longrightarrow> R a [Call c (Resolved (to_ret a))]"
    and "\<And>e. P (Throws e) \<Longrightarrow> T e [Call c (Rejected e)]"
  shows "post (await_call c to_ret prim) R T"
proof (rule postI)
  fix w a w1 tr assume "await_call c to_ret prim w = (Returns a, w1, tr)"
  then have "fst (prim w) = Returns a" "tr = [Call c (Resolved (to_ret a))]"
    by (auto simp: await_call_def split: prod.splits completion.splits)
  with assms(1)[of w] assms(2)[of a] show "R a tr" by simp
next
  fix w e w1 tr assume "await_call c to_ret prim w = (Throws e, w1, tr)"
  then have "fst (prim w) = Throws e" "tr = [Call c (Rejected e)]"
    by (auto simp: await_call_def split: prod.splits completion.splits)
  with assms(1)[of w] assms(3)[of e] show "T e tr" by simp
qed

lemma post_if:
  assumes "c \<Longrightarrow> post m R T" and "\<not> c \<Longrightarrow> post n R T"
  shows "post (if c then m else n) R T"
  using assms by simp

lemmas post_ctl = post_bind post_seq post_try_catch post_logger post_return post_throw post_if

lemma post_pageGoto_known:
  assumes "\<And>w. P (fst (page_goto B url g w))"
    and "\<And>a. P (Returns a) \<Longrightarrow> R a [Call (Goto url g) (Resolved RUnit)]"
    and "\<And>e. P (Throws e) \<Longrightarrow> T e [Call (Goto url g) (Rejected e)]"
  shows "post (pageGoto B url g) R T"
  unfolding pageGoto_def using assms by (rule post_await_known)

lemma post_pageWaitForTimeout_ok:
  assumes "\<forall>ms w. fst (page_waitForTimeout B ms w) = Returns ()"
    and "R () [Call (WaitForTimeout ms) (Resolved RUnit)]"
  shows "post (pageWaitForTimeout B ms) R T"
  unfolding pageWaitForTimeout_def
  by (rule post_await_known[where P = "\<lambda>r. r = Returns ()"]) (use assms in simp_all)

section \<open>Lemmas on goto\<close>

lemma goto_calls_append: "goto_calls (xs @ ys) = goto_calls xs @ goto_calls ys"
  by (induction xs rule: goto_calls.induct) auto

lemma goto_attempt_calls:
  "post (goto_attempt B url M a g) (\<lambda>c tr. goto_calls tr = [waitUntil_for a g])
     (\<lambda>e tr. goto_calls tr = [waitUntil_for a g])"
  unfolding goto_attempt_def goto_catch_def Let_def pageGoto_def pageWaitForLoadState_def
    pageWaitForTimeout_def
  by (intro post_ctl post_await conjI impI allI; simp)

lemma waitUntil_waitUntil_for:
  "1 \<le> a \<Longrightarrow> waitUntil (waitUntil_for a g) = escalation (nat a)"
  by (auto simp: waitUntil_for_def escalation_def Let_def)

lemma goto_loop_escalates:
  "1 \<le> a \<Longrightarrow>
   post (goto_loop B url M a g)
     (\<lambda>_ tr. map waitUntil (goto_calls tr) = map (\<lambda>i. escalation (nat a + i)) [0 ..< length (goto_calls tr)])
     (\<lambda>_ tr. map waitUntil (goto_calls tr) = map (\<lambda>i. escalation (nat a + i)) [0 ..< length (goto_calls tr)])"
proof (induction B url M a g rule: goto_loop.induct)
  case (1 B url M a g)
  let ?Q = "\<lambda>n tr. map waitUntil (goto_calls tr) = map (\<lambda>i. escalation (n + i)) [0 ..< length (goto_calls tr)]"
  have step: "post (case c of Return \<Rightarrow> js_return () | Continue g' \<Rightarrow> goto_loop B url M (a + 1) g')
                (\<lambda>_ tr'. ?Q (nat a) (tr @ tr')) (\<lambda>_ tr'. ?Q (nat a) (tr @ tr'))"
    if le: "a \<le> M" and tr: "goto_calls tr = [waitUntil_for a g]" for c tr
  proof (cases c)
    case Return
    with tr "1.prems" show ?thesis
      by (simp add: post_return waitUntil_waitUntil_for)
  next
    case (Continue g')
    have nat: "nat (a + 1) = Suc (nat a)" using "1.prems" by simp
    have "post (goto_loop B url M (a + 1) g') (\<lambda>_ tr'. ?Q (Suc (nat a)) tr') (\<lambda>_ tr'. ?Q (Suc (nat a)) tr')"
      using "1.IH"[OF le, of g'] "1.prems" nat by simp
    then have "post (goto_loop B url M (a + 1) g')
                 (\<lambda>_ tr'. ?Q (nat a) (tr @ tr')) (\<lambda>_ tr'. ?Q (nat a) (tr @ tr'))"
      by (rule post_weaken)
         (simp_all add: goto_calls_append tr waitUntil_waitUntil_for[OF "1.prems"] map_upt_Suc
            del: upt_Suc)
    with Continue show ?thesis by simp
  qed
  show ?case
  proof (cases "a \<le> M")
    case True
    have "post (js_bind (goto_attempt B url M a g)
             (\<lambda>c. case c of Return \<Rightarrow> js_return () | Continue g' \<Rightarrow> goto_loop B url M (a + 1) g'))
            (\<lambda>_ tr. ?Q (nat a) tr) (\<lambda>_ tr. ?Q (nat a) tr)"
      apply (rule post_bind)
      apply (rule post_weaken[OF goto_attempt_calls])
      using step[OF True] "1.prems" by (simp_all add: waitUntil_waitUntil_for)
    with True show ?thesis by (subst goto_loop.simps) simp
  next
    case False
    then show ?thesis by (subst goto_loop.simps) (simp add: post_return)
  qed
qed

lemma goto_attempt_transient:
  assumes H1: "\<forall>u g w. \<exists>e. fst (page_goto B u g w) = Throws e \<and> isNetworkError e"
    and H2: "\<forall>ms w. fst (page_waitForTimeout B ms w) = Returns ()"
  shows "post (goto_attempt B url M a g)
           (\<lambda>c tr. a < M \<and> c \<noteq> Return \<and> length (goto_calls tr) = 1)
           (\<lambda>e tr. M \<le> a \<and> isNetworkError e \<and> length (goto_calls tr) = 1)"
  unfolding goto_attempt_def goto_catch_def Let_def pageWaitForLoadState_def
  by (intro post_ctl post_await post_pageWaitForTimeout_ok[OF H2]
        post_pageGoto_known[where P = "\<lambda>r. \<exists>e. r = Throws e \<and> isNetworkError e"]
        conjI impI allI; (use H1 in \<open>simp; fail\<close>)?)

lemma goto_loop_transient:
  "\<forall>u g w. \<exists>e. fst (page_goto B u g w) = Throws e \<and> isNetworkError e \<Longrightarrow>
   \<forall>ms w. fst (page_waitForTimeout B ms w) = Returns () \<Longrightarrow>
   1 \<le> a \<Longrightarrow> a \<le> M \<Longrightarrow>
     post (goto_loop B url M a g) (\<lambda>_ tr. False)
       (\<lambda>e tr. isNetworkError e \<and> int (length (goto_calls tr)) = M - a + 1)"
proof (induction B url M a g rule: goto_loop.induct)
  case (1 B url M a g)
  note H1 = "1.prems"(1) and H2 = "1.prems"(2) and a1 = "1.prems"(3) and aM = "1.prems"(4)
  have step: "post (case c of Return \<Rightarrow> js_return () | Continue g' \<Rightarrow> goto_loop B url M (a + 1) g')
                (\<lambda>_ tr'. False)
                (\<lambda>e tr'. isNetworkError e \<and> int (length (goto_calls (tr @ tr'))) = M - a + 1)"
    if "a < M" and "c \<noteq> Return" and "length (goto_calls tr) = 1" for c tr
  proof (cases c)
    case Return
    with that show ?thesis by simp
  next
    case (Continue g')
    have "post (goto_loop B url M (a + 1) g') (\<lambda>_ tr. False)
            (\<lambda>e tr. isNetworkError e \<and> int (length (goto_calls tr)) = M - (a + 1) + 1)"
      using "1.IH"[OF aM, of g'] H1 H2 a1 that(1) by simp
    then have "post (goto_loop B url M (a + 1) g') (\<lambda>_ tr'. False)
            (\<lambda>e tr'. isNetworkError e \<and> int (length (goto_calls (tr @ tr'))) = M - a + 1)"
      by (rule post_weaken) (simp_all add: goto_calls_append that(3))
    with Continue show ?thesis by simp
  qed
  have "post (js_bind (goto_attempt B url M a g)
           (\<lambda>c. case c of Return \<Rightarrow> js_return () | Continue g' \<Rightarrow> goto_loop B url M (a + 1) g'))
          (\<lambda>_ tr. False) (\<lambda>e tr. isNetworkError e \<and> int (length (goto_calls tr)) = M - a + 1)"
    apply (rule post_bind)
    apply (rule post_weaken[OF goto_attempt_transient[OF H1 H2]])
    using step aM by auto
  with aM show ?case by (subst goto_loop.simps) simp
qed

lemma backoffs_acc_no_goto:
  "goto_calls tr = [] \<Longrightarrow>
   backoffs_acc acc (tr @ tr') = backoffs_acc (map_option (\<lambda>d. d + wait_sum tr) acc) tr'"
proof (induction acc tr rule: backoffs_acc.induct)
  case (3 acc ms r tr)
  then show ?case by (cases acc) (simp_all add: add.assoc)
qed (simp_all add: option.map_ident)

lemma backoffs_acc_no_goto_nil: "goto_calls tr = [] \<Longrightarrow> backoffs_acc acc tr = []"
  using backoffs_acc_no_goto[of tr acc "[]"] by simp

lemma backoff_for_mono: "a \<le> b \<Longrightarrow> backoff_for c a \<le> backoff_for c b"
  by (auto simp: backoff_for_def)

lemma backoff_for_nonneg: "0 \<le> a \<Longrightarrow> 0 \<le> backoff_for c a"
  by (auto simp: backoff_for_def)

lemma goto_failures_append: "goto_failures (xs @ ys) = goto_failures xs @ goto_failures ys"
  by (induction xs rule: goto_failures.induct) auto

lemma goto_failures_no_goto: "goto_calls tr = [] \<Longrightarrow> goto_failures tr = []"
  by (induction tr rule: goto_calls.induct) auto

lemma goto_attempt_waits:
  "post (goto_attempt B url M a g)
     (\<lambda>ctl tr. \<exists>ev stuff. tr = ev # stuff \<and> starts_with_goto [ev] \<and> goto_calls stuff = [] \<and>
                  (ctl \<noteq> Return \<longrightarrow> a < M \<and>
                     (\<exists>e. goto_failures [ev] = [e] \<and>
                          wait_sum stuff = backoff_for (wait_tests e) a)))
     (\<lambda>e tr. \<exists>ev stuff. tr = ev # stuff \<and> starts_with_goto [ev] \<and> goto_calls stuff = [])"
  unfolding goto_attempt_def goto_catch_def Let_def pageGoto_def pageWaitForLoadState_def
    pageWaitForTimeout_def
  by (intro post_ctl post_await conjI impI allI;
      (auto simp: starts_with_goto_def backoff_for_def wait_tests_def; fail)?)

lemma starts_with_goto_Some:
  "starts_with_goto tr \<Longrightarrow> backoffs_acc (Some d) tr = d # backoffs_acc None tr"
  by (auto simp: starts_with_goto_def split: list.splits event.splits call.splits)

lemma starts_with_goto_singleton:
  "starts_with_goto [ev] \<Longrightarrow> starts_with_goto (ev # tr)"
  by (auto simp: starts_with_goto_def split: list.splits event.splits call.splits)

lemma starts_with_goto_None:
  "starts_with_goto [ev] \<Longrightarrow> backoffs_acc None (ev # tr) = backoffs_acc (Some 0) tr"
  by (auto simp: starts_with_goto_def split: list.splits event.splits call.splits)

lemma wait_inv_stop:
  assumes "starts_with_goto [ev]" and "goto_calls stuff = []"
  shows "wait_inv M a (ev # stuff)"
proof -
  have "backoffs_acc None (ev # stuff) = take 0 (expected_waits a (goto_failures (ev # stuff)))"
    using assms by (simp add: starts_with_goto_None backoffs_acc_no_goto_nil)
  then show ?thesis
    using assms(1) unfolding wait_inv_def by (blast intro: starts_with_goto_singleton)
qed

lemma wait_inv_step:
  assumes ev: "starts_with_goto [ev]" and stuff: "goto_calls stuff = []"
    and lt: "a < M" and e: "goto_failures [ev] = [e]"
    and sum: "wait_sum stuff = backoff_for (wait_tests e) a"
    and rest: "wait_inv M (a + 1) rest"
  shows "wait_inv M a ((ev # stuff) @ rest)"
proof -
  from rest lt have sg: "starts_with_goto rest" by (simp add: wait_inv_def)
  from rest obtain n where n: "backoffs_acc None rest = take n (expected_waits (a + 1) (goto_failures rest))"
    by (auto simp: wait_inv_def)
  have fails: "goto_failures ((ev # stuff) @ rest) = e # goto_failures rest"
    using e goto_failures_no_goto[OF stuff] goto_failures_append[of "[ev]" "stuff @ rest"]
    by (simp add: goto_failures_append)
  have "backoffs_acc None ((ev # stuff) @ rest) = backoffs_acc (Some 0) (stuff @ rest)"
    using starts_with_goto_None[OF ev] by simp
  also have "\<dots> = backoffs_acc (Some (backoff_for (wait_tests e) a)) rest"
    using backoffs_acc_no_goto[OF stuff, of "Some 0" rest] sum by simp
  also have "\<dots> = backoff_for (wait_tests e) a # backoffs_acc None rest"
    by (rule starts_with_goto_Some[OF sg])
  finally have "backoffs_acc None ((ev # stuff) @ rest) =
      take (Suc n) (expected_waits a (goto_failures ((ev # stuff) @ rest)))"
    using n fails by simp
  then have "\<exists>m. backoffs_acc None ((ev # stuff) @ rest) =
      take m (expected_waits a (goto_failures ((ev # stuff) @ rest)))" by (rule exI)
  moreover have "starts_with_goto ((ev # stuff) @ rest)"
    using starts_with_goto_singleton[OF ev] by simp
  ultimately show ?thesis unfolding wait_inv_def by simp
qed

lemma goto_loop_waits:
  "post (goto_loop B url M a g) (\<lambda>_ tr. wait_inv M a tr) (\<lambda>_ tr. wait_inv M a tr)"
proof (induction B url M a g rule: goto_loop.induct)
  case (1 B url M a g)
  show ?case
  proof (cases "a \<le> M")
    case False
    then show ?thesis
      by (subst goto_loop.simps) (simp add: post_return wait_inv_def)
  next
    case True
    have step: "post (case ctl of Return \<Rightarrow> js_return () | Continue g' \<Rightarrow> goto_loop B url M (a + 1) g')
                  (\<lambda>_ tr'. wait_inv M a (tr @ tr')) (\<lambda>_ tr'. wait_inv M a (tr @ tr'))"
      if tr: "tr = ev # stuff" and ev: "starts_with_goto [ev]" and stuff: "goto_calls stuff = []"
        and cont: "ctl \<noteq> Return \<longrightarrow> a < M \<and>
                     (\<exists>e. goto_failures [ev] = [e] \<and> wait_sum stuff = backoff_for (wait_tests e) a)"
      for ctl tr ev stuff
    proof (cases ctl)
      case Return
      then show ?thesis
        using wait_inv_stop[OF ev stuff] tr by (simp add: post_return)
    next
      case (Continue g')
      with cont obtain e where lt: "a < M" and e: "goto_failures [ev] = [e]"
        and sum: "wait_sum stuff = backoff_for (wait_tests e) a" by auto
      have "post (goto_loop B url M (a + 1) g')
              (\<lambda>_ tr'. wait_inv M (a + 1) tr') (\<lambda>_ tr'. wait_inv M (a + 1) tr')"
        using "1.IH"[OF True, of g'] by simp
      then have "post (goto_loop B url M (a + 1) g')
              (\<lambda>_ tr'. wait_inv M a (tr @ tr')) (\<lambda>_ tr'. wait_inv M a (tr @ tr'))"
        by (rule post_weaken) (use wait_inv_step[OF ev stuff lt e sum] tr in simp_all)
      with Continue show ?thesis by simp
    qed
    have "post (js_bind (goto_attempt B url M a g)
             (\<lambda>c. case c of Return \<Rightarrow> js_return () | Continue g' \<Rightarrow> goto_loop B url M (a + 1) g'))
            (\<lambda>_ tr. wait_inv M a tr) (\<lambda>_ tr. wait_inv M a tr)"
      apply (rule post_bind)
      apply (rule post_weaken[OF goto_attempt_waits])
      using step wait_inv_stop by blast+
    with True show ?thesis by (subst goto_loop.simps) simp
  qed
qed

lemma length_expected_waits: "length (expected_waits a es) = length es"
  by (induction es arbitrary: a) auto

lemma nth_expected_waits:
  "k < length es \<Longrightarrow> expected_waits a es ! k = backoff_for (wait_tests (es ! k)) (a + int k)"
proof (induction es arbitrary: a k)
  case Nil
  then show ?case by simp
next
  case (Cons e es)
  then show ?case by (cases k) (simp_all add: ac_simps)
qed

lemma goto_waits_nth:
  "k < length (backoffs (snd (snd (goto B url options w)))) \<Longrightarrow>
   k < length (goto_failures (snd (snd (goto B url options w)))) \<and>
   backoffs (snd (snd (goto B url options w))) ! k =
     backoff_for (wait_tests (goto_failures (snd (snd (goto B url options w))) ! k)) (1 + int k)"
proof -
  assume k: "k < length (backoffs (snd (snd (goto B url options w))))"
  obtain r w1 tr where run: "goto B url options w = (r, w1, tr)"
    by (cases "goto B url options w") auto
  have p: "post (goto B url options) (\<lambda>_ tr. wait_inv (maxRetries_of options) 1 tr)
               (\<lambda>_ tr. wait_inv (maxRetries_of options) 1 tr)"
    unfolding goto_def by (rule goto_loop_waits)
  have "wait_inv (maxRetries_of options) 1 tr"
  proof (cases r)
    case (Returns a)
    with post_Returns[OF p] run show ?thesis by simp
  next
    case (Throws e)
    with post_Throws[OF p] run show ?thesis by simp
  qed
  then obtain n where n: "backoffs tr = take n (expected_waits 1 (goto_failures tr))"
    by (auto simp: wait_inv_def backoffs_def)
  from k run have k': "k < length (backoffs tr)" by simp
  with n have kn: "k < n" "k < length (goto_failures tr)"
    by (simp_all add: length_expected_waits)
  with n have "backoffs tr ! k = backoff_for (wait_tests (goto_failures tr ! k)) (1 + int k)"
    by (simp add: nth_expected_waits)
  with kn run show ?thesis by simp
qed

lemma wait_tests_examples:
  "wait_tests connection_refused = (False, False)" "wait_tests connection_reset = (False, True)"
  by code_simp+

lemma unstable_page_run:
  "goto_failures (snd (snd (goto unstable_page ''/#/login'' five_retries 0))) =
     [connection_refused, connection_reset, connection_refused, connection_refused,
      connection_refused]"
  "backoffs (snd (snd (goto unstable_page ''/#/login'' five_retries 0))) = [2000, 8000, 6000, 8000]"
  by code_simp+

lemma goto_timeout_class: "isNetworkError goto_timeout"
  by code_simp

lemma invalid_url_class: "\<not> isNetworkError invalid_url"
  by code_simp

section \<open>Lemmas on fillInput and the selector loops\<close>

lemma fillInput_post:
  "post (fillInput B l text options)
     (\<lambda>_ tr. tr =
        [Call (WaitFor l ''visible'' (Some (case fill_timeout options of None \<Rightarrow> 30000 | Some t \<Rightarrow> t)))
           (Resolved RUnit),
         Log Info, Call (Clear l) (Resolved RUnit), Call (Fill l text) (Resolved RUnit)] @
        (if validate options \<noteq> Some False then [Call (InputValue l) (Resolved (RStr text))] else []) @
        [Log Info])
     (\<lambda>e tr. (\<forall>v. Call (InputValue l) (Resolved (RStr v)) \<in> set tr \<longrightarrow>
                  v \<noteq> text \<and> e = validation_error text v) \<and>
             ((\<exists>x. Call (InputValue l) x \<in> set tr) \<longrightarrow> validate options \<noteq> Some False) \<and>
             (validate options \<noteq> Some False \<and> Call (Fill l text) (Resolved RUnit) \<in> set tr \<longrightarrow>
                (\<exists>x. Call (InputValue l) x \<in> set tr)))"
  unfolding fillInput_def waitForElement_def Let_def locWaitFor_def locClear_def locFill_def
    locInputValue_def
  apply (intro post_ctl post_await conjI impI allI)
  apply (simp_all add: validation_error_def)
  done

lemma probes_append: "probes (xs @ ys) = probes xs @ probes ys"
  by (induction xs rule: probes.induct) auto

lemma first_match_here: "probed_until_first_match (c # rest) (Some c) [(c, True)]"
  unfolding probed_until_first_match_def by (auto intro: exI[of _ 0])

lemma first_match_later:
  assumes "probed_until_first_match rest res ps"
  shows "probed_until_first_match (c # rest) res ((c, False) # ps)"
proof (cases res)
  case None
  with assms show ?thesis by (simp add: probed_until_first_match_def)
next
  case (Some m)
  with assms obtain n where n: "n < length rest" "rest ! n = m"
    "ps = map (\<lambda>x. (x, False)) (take n rest) @ [(m, True)]"
    by (auto simp: probed_until_first_match_def)
  then have "Suc n < length (c # rest) \<and> (c # rest) ! Suc n = m \<and>
     (c, False) # ps = map (\<lambda>x. (x, False)) (take (Suc n) (c # rest)) @ [(m, True)]"
    by simp
  with Some show ?thesis unfolding probed_until_first_match_def by (simp only: option.case) blast
qed

lemma first_match_Some_probe:
  "probed_until_first_match cands (Some f) ps \<Longrightarrow> (f, True) \<in> set ps"
  by (auto simp: probed_until_first_match_def)

lemma login_usernameLoop_post:
  "post (login_usernameLoop B cands)
     (\<lambda>res tr. probed_until_first_match cands res (probes tr)) (\<lambda>e tr. False)"
proof (induction cands)
  case Nil
  show ?case by (simp add: post_return probed_until_first_match_def)
next
  case (Cons c rest)
  have rest: "post (login_usernameLoop B rest)
     (\<lambda>res tr'. probed_until_first_match (c # rest) res ((c, False) # probes tr')) (\<lambda>e tr'. False)"
    by (rule post_weaken[OF Cons.IH]) (simp_all add: first_match_later)
  show ?case
    unfolding login_usernameLoop.simps locWaitFor_def
    apply (rule post_bind)
    apply (intro post_ctl post_await)
     apply (simp add: post_return first_match_here)
    apply (simp add: rest)
    done
qed

lemma form_nameInputLoop_post:
  "post (form_nameInputLoop B cands)
     (\<lambda>res tr. probed_until_first_match cands res (probes tr)) (\<lambda>e tr. False)"
proof (induction cands)
  case Nil
  show ?case by (simp add: post_return probed_until_first_match_def)
next
  case (Cons c rest)
  have rest: "post (form_nameInputLoop B rest)
     (\<lambda>res tr'. probed_until_first_match (c # rest) res ((c, False) # probes tr')) (\<lambda>e tr'. False)"
    by (rule post_weaken[OF Cons.IH]) (simp_all add: first_match_later)
  show ?case
    unfolding form_nameInputLoop.simps locIsVisible_def
    apply (rule post_bind)
    apply (intro post_ctl post_await conjI impI allI)
         apply (simp_all add: post_return first_match_here rest)
    done
qed

lemma login_usernameLoop_static:
  assumes "\<forall>c \<in> set cands. \<forall>v. (fst (loc_waitFor B c ''visible'' (Some 10000) v) = Returns ()) = (c = m)"
  shows "post (login_usernameLoop B cands)
           (\<lambda>res tr. res = (if m \<in> set cands then Some m else None)) (\<lambda>e tr. False)"
  using assms
proof (induction cands)
  case Nil
  show ?case by (simp add: post_return)
next
  case (Cons c rest)
  then have IH: "post (login_usernameLoop B rest)
           (\<lambda>res tr. res = (if m \<in> set rest then Some m else None)) (\<lambda>e tr. False)" by simp
  from Cons.prems have c: "\<And>v. (fst (loc_waitFor B c ''visible'' (Some 10000) v) = Returns ()) = (c = m)"
    by simp
  have rest: "m \<in> set rest \<Longrightarrow> post (login_usernameLoop B rest) (\<lambda>res tr. res = Some m) (\<lambda>e tr. False)"
    "m \<notin> set rest \<Longrightarrow> post (login_usernameLoop B rest) (\<lambda>res tr. res = None) (\<lambda>e tr. False)"
    using IH by simp_all
  show ?case
    unfolding login_usernameLoop.simps locWaitFor_def
    apply (rule post_bind)
    apply (intro post_ctl post_await_known[where P = "\<lambda>r. (r = Returns ()) = (c = m)"])
      apply (simp add: c)
     apply (simp add: post_return)
    apply (simp add: rest)
    done
qed

lemma form_nameInputLoop_static:
  assumes "\<forall>c \<in> set cands. \<forall>v. (fst (loc_isVisible B c 5000 v) = Returns True) = (c = m)"
  shows "post (form_nameInputLoop B cands)
           (\<lambda>res tr. res = (if m \<in> set cands then Some m else None)) (\<lambda>e tr. False)"
  using assms
proof (induction cands)
  case Nil
  show ?case by (simp add: post_return)
next
  case (Cons c rest)
  then have IH: "post (form_nameInputLoop B rest)
           (\<lambda>res tr. res = (if m \<in> set rest then Some m else None)) (\<lambda>e tr. False)" by simp
  from Cons.prems have c: "\<And>v. (fst (loc_isVisible B c 5000 v) = Returns True) = (c = m)"
    by simp
  have rest: "m \<in> set rest \<Longrightarrow> post (form_nameInputLoop B rest) (\<lambda>res tr. res = Some m) (\<lambda>e tr. False)"
    "m \<notin> set rest \<Longrightarrow> post (form_nameInputLoop B rest) (\<lambda>res tr. res = None) (\<lambda>e tr. False)"
    using IH by simp_all
  show ?case
    unfolding form_nameInputLoop.simps locIsVisible_def
    apply (rule post_bind)
    apply (intro post_ctl post_await_known[where P = "\<lambda>r. (r = Returns True) = (c = m)"] conjI impI allI)
         apply (simp_all add: c post_return rest)
    done
qed

lemma login_usernameLoop_quiet:
  "post (login_usernameLoop B cands) (\<lambda>res tr. list_all probe_or_log tr) (\<lambda>e tr. False)"
proof (induction cands)
  case Nil
  show ?case by (simp add: post_return)
next
  case (Cons c rest)
  show ?case
    unfolding login_usernameLoop.simps locWaitFor_def
    apply (rule post_bind)
    apply (intro post_ctl post_await)
     apply (simp add: post_return)
    apply (simp add: Cons.IH)
    done
qed

lemma form_nameInputLoop_quiet:
  "post (form_nameInputLoop B cands) (\<lambda>res tr. list_all probe_or_log tr) (\<lambda>e tr. False)"
proof (induction cands)
  case Nil
  show ?case by (simp add: post_return)
next
  case (Cons c rest)
  show ?case
    unfolding form_nameInputLoop.simps locIsVisible_def
    apply (rule post_bind)
    apply (intro post_ctl post_await conjI impI allI)
         apply (simp_all add: post_return Cons.IH)
    done
qed

lemma probe_or_log_no_screenshot:
  "list_all probe_or_log tr \<Longrightarrow> Call (Screenshot p) x \<notin> set tr"
  by (auto simp: list_all_iff)

lemma probe_or_log_no_count:
  "list_all probe_or_log tr \<Longrightarrow> Call (Count l) x \<notin> set tr"
  by (auto simp: list_all_iff)

lemma form_findNameInput_post:
  "post (form_findNameInput B cands)
     (\<lambda>f tr. probed_until_first_match cands (Some f) (probes tr) \<and> list_all probe_or_log tr)
     (\<lambda>e tr. e = new_Error ''Form name input field not found. Form may not have loaded.'' \<and>
             (\<exists>pre x. tr = pre @ [Call (Screenshot ''test-results/form-input-not-found.png'') x] \<and>
                      probes pre = map (\<lambda>c. (c, False)) cands \<and> list_all probe_or_log pre))"
  unfolding form_findNameInput_def pageScreenshot_def
  apply (rule post_bind)
  apply (rule post_weaken[OF post_conj[OF form_nameInputLoop_post form_nameInputLoop_quiet]])
  subgoal for res tr
    apply (cases res)
     apply (simp only: option.case)
     apply (intro post_ctl post_await)
      apply (simp_all add: probed_until_first_match_def post_return)
    done
  apply simp
  done

lemma login_findUsernameField_post:
  \<open>post (login_findUsernameField B cands)
     (\<lambda>f tr. (probed_until_first_match cands (Some f) (probes tr) \<and> list_all probe_or_log tr) \<or>
             (\<exists>pre n. tr = pre @ [Call (Count (Locator ''input[type="email"]'')) (Resolved (RNum n))] \<and>
                 0 < n \<and> probes pre = map (\<lambda>c. (c, False)) cands \<and> list_all probe_or_log pre))
     (\<lambda>e tr. \<exists>pre x. tr = pre @ [Call (Count (Locator ''input[type="email"]'')) x] \<and>
                 probes pre = map (\<lambda>c. (c, False)) cands \<and> list_all probe_or_log pre \<and>
                 (x = Rejected e \<or>
                  x = Resolved (RNum 0) \<and> e = new_Error ''Username field not found on the page''))\<close>
  unfolding login_findUsernameField_def locCount_def
  apply (rule post_bind)
  apply (rule post_weaken[OF post_conj[OF login_usernameLoop_post login_usernameLoop_quiet]])
  subgoal for res tr
    apply (cases res)
     apply (simp only: option.case)
     apply (intro post_ctl post_await conjI impI allI)
       apply (simp_all add: probed_until_first_match_def post_return)
    done
  apply simp
  done

section \<open>Properties\<close>

subsection \<open>Navigation\<close>

text \<open>
  C1, as the specification states it, fails. With \<^verbatim>\<open>retries: 3\<close> (the call of
  \<open>navigateToLogin\<close>) and a navigation that times out on every attempt, \<open>goto\<close>
  calls \<^verbatim>\<open>page.goto\<close> three times and then throws the timeout: the option counts
  attempts, so there are 3 of them and not 3 + 1.
\<close>

theorem goto_three_retries_three_attempts:
  "fst (goto (offline_page goto_timeout) ''/#/login'' navigateToLogin_options ()) = Throws goto_timeout \<and>
   maxRetries_of navigateToLogin_options = 3 \<and>
   length (goto_calls (snd (snd (goto (offline_page goto_timeout) ''/#/login''
             navigateToLogin_options ())))) = 3"
  by code_simp

text \<open>
  C1, amended. When \<^verbatim>\<open>page.goto\<close> fails with a network or timeout class error on
  every attempt, the waits between attempts complete, and the retry count \<open>N\<close> (the
  \<^verbatim>\<open>retries\<close> option, 3 when it is absent or zero) is at least 1, then \<open>goto\<close>
  makes exactly \<open>N\<close> attempts (the first one and \<open>N - 1\<close> retries) and throws a network
  class error to its caller.
\<close>

theorem goto_exhausts_after_maxRetries_attempts:
  assumes "\<forall>u g w. \<exists>e. fst (page_goto B u g w) = Throws e \<and> isNetworkError e"
    and "\<forall>ms w. fst (page_waitForTimeout B ms w) = Returns ()"
    and "1 \<le> maxRetries_of options"
  shows "\<exists>e. fst (goto B url options w) = Throws e \<and> isNetworkError e \<and>
             int (length (goto_calls (snd (snd (goto B url options w))))) = maxRetries_of options"
proof -
  obtain r w1 tr where run: "goto B url options w = (r, w1, tr)"
    by (cases "goto B url options w") auto
  have p: "post (goto B url options) (\<lambda>_ tr. False)
     (\<lambda>e tr. isNetworkError e \<and> int (length (goto_calls tr)) = maxRetries_of options)"
    unfolding goto_def
    using goto_loop_transient[OF assms(1,2), of 1 "maxRetries_of options" url "initial_gotoOptions options"] assms(3)
    by simp
  show ?thesis
  proof (cases r)
    case (Returns a)
    with post_Returns[OF p] run show ?thesis by simp
  next
    case (Throws e)
    with post_Throws[OF p] run show ?thesis by simp
  qed
qed

text \<open>The amended C1 on the page that always times out, with three retries.\<close>

theorem goto_exhausts_witness:
  "\<exists>e. fst (goto (offline_page goto_timeout) ''/#/login'' navigateToLogin_options ()) = Throws e \<and>
        isNetworkError e \<and>
        int (length (goto_calls (snd (snd (goto (offline_page goto_timeout) ''/#/login''
               navigateToLogin_options ()))))) = 3"
proof -
  have h1: "\<forall>u g w. \<exists>e. fst (page_goto (offline_page goto_timeout) u g w) = Throws e \<and> isNetworkError e"
    by (simp add: offline_page_def goto_timeout_class)
  have h2: "\<forall>ms w. fst (page_waitForTimeout (offline_page goto_timeout) ms w) = Returns ()"
    by (simp add: offline_page_def blank_page_def)
  have h3: "1 \<le> maxRetries_of navigateToLogin_options"
    by (simp add: maxRetries_of_def navigateToLogin_options_def)
  have "maxRetries_of navigateToLogin_options = 3"
    by (simp add: maxRetries_of_def navigateToLogin_options_def)
  with goto_exhausts_after_maxRetries_attempts[OF h1 h2 h3, of "''/#/login''" "()"]
  show ?thesis by simp
qed

text \<open>
  Why \<open>N\<close> must be at least 1: with a negative \<^verbatim>\<open>retries\<close> the loop body never
  runs, and \<open>goto\<close> returns without a single attempt.
\<close>

lemma goto_without_attempt:
  "maxRetries_of options < 1 \<Longrightarrow> goto B url options w = (Returns (), w, [])"
  unfolding goto_def by (subst goto_loop.simps) (simp add: js_return_def)

text \<open>
  C4. A failure that is not retried is thrown at once. For \<open>goto\<close>: when the first
  \<^verbatim>\<open>page.goto\<close> rejects with an error that is not of the network or timeout class
  (and the retry count allows a first attempt), \<open>goto\<close> throws that very error after
  this one attempt, with no wait and no further call. For \<open>clickElement\<close> without
  \<^verbatim>\<open>force\<close>: when the element is visible and attached but not enabled, it throws
  \<^verbatim>\<open>Element is not enabled\<close> after one pass, without clicking, retrying or waiting.
\<close>

theorem permanent_failure_not_retried:
  "(1 \<le> maxRetries_of options \<and>
    page_goto B url (waitUntil_for 1 (initial_gotoOptions options)) w = (Throws e, w1) \<and>
    \<not> isNetworkError e \<longrightarrow>
      goto B url options w =
        (Throws e, w1,
         Call (Goto url (waitUntil_for 1 (initial_gotoOptions options))) (Rejected e) #
         (if maxRetries_of options \<le> 1 then [Log Err] else []))) \<and>
   (loc_waitFor B' locator ''visible''
        (Some (case click_timeout opts of None \<Rightarrow> 30000 | Some t \<Rightarrow> t)) v = (Returns (), v1) \<and>
    force opts \<noteq> Some True \<and>
    loc_waitFor B' locator ''attached'' None v1 = (Returns (), v2) \<and>
    loc_isEnabled B' locator v2 = (Returns False, v3) \<longrightarrow>
      clickElement B' locator opts v =
        (Throws (new_Error ''Element is not enabled''), v3,
         [Call (WaitFor locator ''visible''
                  (Some (case click_timeout opts of None \<Rightarrow> 30000 | Some t \<Rightarrow> t))) (Resolved RUnit),
          Log Info,
          Call (WaitFor locator ''attached'' None) (Resolved RUnit),
          Call (IsEnabled locator) (Resolved (RBool False)),
          Log Err]))"
proof (intro conjI impI)
  assume h: "1 \<le> maxRetries_of options \<and>
    page_goto B url (waitUntil_for 1 (initial_gotoOptions options)) w = (Throws e, w1) \<and>
    \<not> isNetworkError e"
  then show "goto B url options w =
        (Throws e, w1,
         Call (Goto url (waitUntil_for 1 (initial_gotoOptions options))) (Rejected e) #
         (if maxRetries_of options \<le> 1 then [Log Err] else []))"
    unfolding goto_def
    by (subst goto_loop.simps)
       (simp add: goto_attempt_def goto_catch_def pageGoto_def js_defs Let_def)
next
  assume "loc_waitFor B' locator ''visible''
        (Some (case click_timeout opts of None \<Rightarrow> 30000 | Some t \<Rightarrow> t)) v = (Returns (), v1) \<and>
    force opts \<noteq> Some True \<and>
    loc_waitFor B' locator ''attached'' None v1 = (Returns (), v2) \<and>
    loc_isEnabled B' locator v2 = (Returns False, v3)"
  then show "clickElement B' locator opts v =
        (Throws (new_Error ''Element is not enabled''), v3,
         [Call (WaitFor locator ''visible''
                  (Some (case click_timeout opts of None \<Rightarrow> 30000 | Some t \<Rightarrow> t))) (Resolved RUnit),
          Log Info,
          Call (WaitFor locator ''attached'' None) (Resolved RUnit),
          Call (IsEnabled locator) (Resolved (RBool False)),
          Log Err])"
    by (simp add: clickElement_def waitForElement_def locWaitFor_def locIsEnabled_def js_defs Let_def)
qed

text \<open>C4 on a page that refuses the URL, and on a page whose button is disabled.\<close>

theorem permanent_failure_witness:
  "goto (offline_page invalid_url) ''nowhere'' navigateToLogin_options () =
     (Throws invalid_url, (),
      [Call (Goto ''nowhere'' \<lparr>timeout = 90000, waitUntil = ''domcontentloaded''\<rparr>)
         (Rejected invalid_url)]) \<and>
   clickElement (page_showing (Locator ''#go'')) (Locator ''#go'') default_click () =
     (Throws (new_Error ''Element is not enabled''), (),
      [Call (WaitFor (Locator ''#go'') ''visible'' (Some 30000)) (Resolved RUnit),
       Log Info,
       Call (WaitFor (Locator ''#go'') ''attached'' None) (Resolved RUnit),
       Call (IsEnabled (Locator ''#go'')) (Resolved (RBool False)),
       Log Err])"
  using permanent_failure_not_retried[where options = navigateToLogin_options
      and B = "offline_page invalid_url" and url = "''nowhere''" and w = "()" and e = invalid_url
      and ?w1.0 = "()" and B' = "page_showing (Locator ''#go'')" and locator = "Locator ''#go''"
      and opts = default_click and v = "()" and ?v1.0 = "()" and ?v2.0 = "()" and ?v3.0 = "()"]
  by (simp add: invalid_url_class offline_page_def page_showing_def blank_page_def
      maxRetries_of_def navigateToLogin_options_def initial_gotoOptions_def waitUntil_for_def
      default_click_def)

text \<open>
  C5, as the specification states it, fails. With five retries on a page whose
  navigation fails with a refused connection, a reset, and then refused connections,
  all five failures are connection errors of the network class (each passes the network
  test of \<open>goto\<close> through \<^verbatim>\<open>net::\<close> and \<^verbatim>\<open>err_connection\<close>, none is a timeout or an
  HTTP/2 protocol error), and the waits between the attempts are 2000, 8000, 6000 and
  8000 ms: the wait after the reset is doubled, so the next one is shorter.
\<close>

theorem goto_backoff_not_monotone:
  "length (goto_failures (snd (snd (goto unstable_page ''/#/login'' five_retries 0)))) = 5 \<and>
   list_all (\<lambda>e. isNetworkError e \<and>
                 str_includes (toLowerCase (err_message e)) ''net::err_connection'' \<and>
                 \<not> str_includes (toLowerCase (err_message e)) ''timeout'' \<and>
                 \<not> str_includes (toLowerCase (err_message e)) ''err_http2_protocol_error'')
     (goto_failures (snd (snd (goto unstable_page ''/#/login'' five_retries 0)))) \<and>
   backoffs (snd (snd (goto unstable_page ''/#/login'' five_retries 0))) = [2000, 8000, 6000, 8000] \<and>
   \<not> sorted (backoffs (snd (snd (goto unstable_page ''/#/login'' five_retries 0))))"
proof -
  have "isNetworkError connection_refused \<and>
        str_includes (toLowerCase (err_message connection_refused)) ''net::err_connection'' \<and>
        \<not> str_includes (toLowerCase (err_message connection_refused)) ''timeout'' \<and>
        \<not> str_includes (toLowerCase (err_message connection_refused)) ''err_http2_protocol_error''"
    by code_simp
  moreover have "isNetworkError connection_reset \<and>
        str_includes (toLowerCase (err_message connection_reset)) ''net::err_connection'' \<and>
        \<not> str_includes (toLowerCase (err_message connection_reset)) ''timeout'' \<and>
        \<not> str_includes (toLowerCase (err_message connection_reset)) ''err_http2_protocol_error''"
    by code_simp
  ultimately show ?thesis by (simp add: unstable_page_run)
qed

text \<open>
  C5, amended. The waits of \<open>goto\<close> between successive attempts (for two neighbouring
  \<^verbatim>\<open>page.goto\<close> calls, the sum of the \<^verbatim>\<open>waitForTimeout\<close> durations between them)
  are never negative. In every stretch of consecutive failed attempts, from attempt
  \<open>i + 1\<close> to attempt \<open>j + 1\<close>, whose errors all give the same answers \<open>c\<close> to the two
  tests that set the wait (the lower-cased message contains
  \<^verbatim>\<open>err_http2_protocol_error\<close>; the message contains \<^verbatim>\<open>ERR_CONNECTION_RESET\<close>), the
  waits after these attempts never decrease from one attempt to the next. The stretch
  may be any part of the run; the errors outside it are free.
\<close>

theorem goto_backoff_monotone_per_stretch:
  "(\<forall>d \<in> set (backoffs (snd (snd (goto B url options w)))). 0 \<le> d) \<and>
   (i \<le> j \<and> j < length (backoffs (snd (snd (goto B url options w)))) \<and>
    (\<forall>k. i \<le> k \<and> k \<le> j \<longrightarrow>
         wait_tests (goto_failures (snd (snd (goto B url options w))) ! k) = c) \<longrightarrow>
      sorted (take (Suc j - i) (drop i (backoffs (snd (snd (goto B url options w)))))))"
proof (intro conjI impI ballI)
  fix d
  assume "d \<in> set (backoffs (snd (snd (goto B url options w))))"
  then obtain k where k: "k < length (backoffs (snd (snd (goto B url options w))))"
    and d: "d = backoffs (snd (snd (goto B url options w))) ! k"
    by (auto simp: in_set_conv_nth)
  from goto_waits_nth[OF k] d show "0 \<le> d"
    by (simp add: backoff_for_nonneg)
next
  let ?bs = "backoffs (snd (snd (goto B url options w)))"
  let ?fs = "goto_failures (snd (snd (goto B url options w)))"
  assume h: "i \<le> j \<and> j < length ?bs \<and> (\<forall>k. i \<le> k \<and> k \<le> j \<longrightarrow> wait_tests (?fs ! k) = c)"
  have val: "?bs ! k = backoff_for c (1 + int k)" if "i \<le> k" "k \<le> j" for k
  proof -
    from that h have "k < length ?bs" by simp
    from goto_waits_nth[OF this] that h show ?thesis by simp
  qed
  show "sorted (take (Suc j - i) (drop i ?bs))"
  proof (subst sorted_iff_nth_mono, intro allI impI)
    fix p q
    assume pq: "p \<le> q" and q: "q < length (take (Suc j - i) (drop i ?bs))"
    with h have b: "i + p \<le> j" "i + q \<le> j" by auto
    with h have "take (Suc j - i) (drop i ?bs) ! p = ?bs ! (i + p)"
      "take (Suc j - i) (drop i ?bs) ! q = ?bs ! (i + q)" by auto
    moreover have "?bs ! (i + p) \<le> ?bs ! (i + q)"
      using val[of "i + p"] val[of "i + q"] b pq by (simp add: backoff_for_mono)
    ultimately show "take (Suc j - i) (drop i ?bs) ! p \<le> take (Suc j - i) (drop i ?bs) ! q"
      by simp
  qed
qed

text \<open>
  The amended C5 on the third and fourth attempt of the run above (both refused), and
  on the whole run of a page whose connection is always reset.
\<close>

theorem goto_backoff_per_stretch_witness:
  "sorted (take 2 (drop 2 (backoffs (snd (snd (goto unstable_page ''/#/login'' five_retries 0)))))) \<and>
   take 2 (drop 2 (backoffs (snd (snd (goto unstable_page ''/#/login'' five_retries 0))))) =
     [6000, 8000] \<and>
   sorted (backoffs (snd (snd (goto (offline_page connection_reset) ''/#/login'' five_retries ())))) \<and>
   backoffs (snd (snd (goto (offline_page connection_reset) ''/#/login'' five_retries ()))) =
     [4000, 8000, 12000, 16000]"
proof -
  let ?U = "snd (snd (goto unstable_page ''/#/login'' five_retries 0))"
  let ?R = "snd (snd (goto (offline_page connection_reset) ''/#/login'' five_retries ()))"
  note fU = unstable_page_run(1) and bU = unstable_page_run(2)
  have fR: "goto_failures ?R = [connection_reset, connection_reset, connection_reset,
      connection_reset, connection_reset]" by code_simp
  have bR: "backoffs ?R = [4000, 8000, 12000, 16000]" by code_simp
  have uk: "\<forall>k. (2::nat) \<le> k \<and> k \<le> 3 \<longrightarrow> wait_tests (goto_failures ?U ! k) = (False, False)"
  proof (intro allI impI)
    fix k :: nat assume "2 \<le> k \<and> k \<le> 3"
    then have "k = 2 \<or> k = 3" by arith
    then show "wait_tests (goto_failures ?U ! k) = (False, False)"
      by (auto simp: fU wait_tests_examples)
  qed
  have rk: "\<forall>k. (0::nat) \<le> k \<and> k \<le> 3 \<longrightarrow> wait_tests (goto_failures ?R ! k) = (False, True)"
  proof (intro allI impI)
    fix k :: nat assume "0 \<le> k \<and> k \<le> 3"
    then have "k = 0 \<or> k = 1 \<or> k = 2 \<or> k = 3" by arith
    then show "wait_tests (goto_failures ?R ! k) = (False, True)"
      by (auto simp: fR wait_tests_examples)
  qed
  have "sorted (take (Suc 3 - 2) (drop 2 (backoffs ?U)))"
    by (rule mp[OF conjunct2[OF goto_backoff_monotone_per_stretch[where i = 2 and j = 3
            and c = "(False, False)"]]]) (simp add: bU uk)
  then have s1: "sorted (take 2 (drop 2 (backoffs ?U)))" by (simp add: numeral_2_eq_2)
  have "sorted (take (Suc 3 - 0) (drop 0 (backoffs ?R)))"
    by (rule mp[OF conjunct2[OF goto_backoff_monotone_per_stretch[where i = 0 and j = 3
            and c = "(False, True)"]]]) (simp add: bR rk)
  then have s2: "sorted (backoffs ?R)" by (simp add: bR)
  from s1 s2 bU bR show ?thesis by simp
qed

text \<open>
  C6. The wait-until condition of the attempts of \<open>goto\<close> escalates: the first attempt
  uses \<^verbatim>\<open>domcontentloaded\<close>, the second \<^verbatim>\<open>load\<close>, the third and every later one
  \<^verbatim>\<open>networkidle\<close>, whatever the caller passed as \<^verbatim>\<open>waitUntil\<close>.
\<close>

theorem goto_waitUntil_escalates:
  "map waitUntil (goto_calls (snd (snd (goto B url options w)))) =
   map (\<lambda>i. escalation (Suc i)) [0 ..< length (goto_calls (snd (snd (goto B url options w))))]"
proof -
  obtain r w1 tr where run: "goto B url options w = (r, w1, tr)"
    by (cases "goto B url options w") auto
  have p: "post (goto B url options)
     (\<lambda>_ tr. map waitUntil (goto_calls tr) = map (\<lambda>i. escalation (Suc i)) [0 ..< length (goto_calls tr)])
     (\<lambda>_ tr. map waitUntil (goto_calls tr) = map (\<lambda>i. escalation (Suc i)) [0 ..< length (goto_calls tr)])"
    unfolding goto_def using goto_loop_escalates[of 1 B url "maxRetries_of options" "initial_gotoOptions options"] by simp
  show ?thesis
  proof (cases r)
    case (Returns a)
    with post_Returns[OF p] run show ?thesis by simp
  next
    case (Throws e)
    with post_Throws[OF p] run show ?thesis by simp
  qed
qed

text \<open>C6 on five failing attempts.\<close>

theorem goto_waitUntil_escalates_witness:
  "map waitUntil (goto_calls (snd (snd (goto (offline_page connection_reset) ''/#/login''
      five_retries ())))) =
   [''domcontentloaded'', ''load'', ''networkidle'', ''networkidle'', ''networkidle'']"
proof -
  have "length (goto_calls (snd (snd (goto (offline_page connection_reset) ''/#/login''
      five_retries ())))) = 5" by code_simp
  with goto_waitUntil_escalates[of "offline_page connection_reset" "''/#/login''" five_retries "()"]
  show ?thesis by (simp add: escalation_def upt_rec)
qed

subsection \<open>Resolving a list of candidate selectors\<close>

text \<open>
  C7. The selector loops of \<open>login\<close> (username field) and of
  \<open>fillFormCreationForm\<close> (name input) never throw, probe the candidates in list order
  and stop at the first success: the probes are the candidates before the match, each
  failed, then the match, and no later candidate is probed. In particular, on a page where
  exactly the candidate \<open>m\<close> of the list matches, the result is \<open>m\<close>, wherever it
  stands in the list.
\<close>

theorem resolution_first_match_wins:
  "(\<exists>res. fst (login_usernameLoop B cands w) = Returns res \<and>
          probed_until_first_match cands res (probes (snd (snd (login_usernameLoop B cands w))))) \<and>
   (\<exists>res. fst (form_nameInputLoop B cands w) = Returns res \<and>
          probed_until_first_match cands res (probes (snd (snd (form_nameInputLoop B cands w))))) \<and>
   (m \<in> set cands \<and>
    (\<forall>c \<in> set cands. \<forall>v. (fst (loc_waitFor B c ''visible'' (Some 10000) v) = Returns ()) = (c = m))
      \<longrightarrow> fst (login_usernameLoop B cands w) = Returns (Some m)) \<and>
   (m \<in> set cands \<and>
    (\<forall>c \<in> set cands. \<forall>v. (fst (loc_isVisible B c 5000 v) = Returns True) = (c = m))
      \<longrightarrow> fst (form_nameInputLoop B cands w) = Returns (Some m))"
proof (intro conjI impI)
  show "\<exists>res. fst (login_usernameLoop B cands w) = Returns res \<and>
          probed_until_first_match cands res (probes (snd (snd (login_usernameLoop B cands w))))"
    by (rule post_total[OF login_usernameLoop_post])
  show "\<exists>res. fst (form_nameInputLoop B cands w) = Returns res \<and>
          probed_until_first_match cands res (probes (snd (snd (form_nameInputLoop B cands w))))"
    by (rule post_total[OF form_nameInputLoop_post])
next
  assume h: "m \<in> set cands \<and>
    (\<forall>c \<in> set cands. \<forall>v. (fst (loc_waitFor B c ''visible'' (Some 10000) v) = Returns ()) = (c = m))"
  then have "post (login_usernameLoop B cands)
           (\<lambda>res tr. res = (if m \<in> set cands then Some m else None)) (\<lambda>e tr. False)"
    by (intro login_usernameLoop_static) simp
  from post_total[OF this, of w] h show "fst (login_usernameLoop B cands w) = Returns (Some m)"
    by auto
next
  assume h: "m \<in> set cands \<and>
    (\<forall>c \<in> set cands. \<forall>v. (fst (loc_isVisible B c 5000 v) = Returns True) = (c = m))"
  then have "post (form_nameInputLoop B cands)
           (\<lambda>res tr. res = (if m \<in> set cands then Some m else None)) (\<lambda>e tr. False)"
    by (intro form_nameInputLoop_static) simp
  from post_total[OF this, of w] h show "fst (form_nameInputLoop B cands w) = Returns (Some m)"
    by auto
qed

text \<open>
  C7 on the selector lists of the two page objects: the fifth username selector, and the
  seventh name selector, are the only ones that match.
\<close>

theorem resolution_first_match_witness:
  "fst (login_usernameLoop (page_showing id_user_input) usernameSelectors ()) =
     Returns (Some id_user_input) \<and>
   probes (snd (snd (login_usernameLoop (page_showing id_user_input) usernameSelectors ()))) =
     map (\<lambda>c. (c, False)) (take 4 usernameSelectors) @ [(id_user_input, True)] \<and>
   fst (form_nameInputLoop (page_showing text_input) nameInputSelectors ()) =
     Returns (Some text_input) \<and>
   probes (snd (snd (form_nameInputLoop (page_showing text_input) nameInputSelectors ()))) =
     map (\<lambda>c. (c, False)) (take 6 nameInputSelectors) @ [(text_input, True)]"
proof -
  have l1: "id_user_input \<in> set usernameSelectors"
    by (simp add: usernameSelectors_def id_user_input_def)
  have l2: "\<forall>c \<in> set usernameSelectors. \<forall>v.
      (fst (loc_waitFor (page_showing id_user_input) c ''visible'' (Some 10000) v) = Returns ()) =
      (c = id_user_input)"
    by (simp add: page_showing_def)
  have f1: "text_input \<in> set nameInputSelectors"
    by (simp add: nameInputSelectors_def text_input_def)
  have f2: "\<forall>c \<in> set nameInputSelectors. \<forall>v.
      (fst (loc_isVisible (page_showing text_input) c 5000 v) = Returns True) = (c = text_input)"
    by (simp add: page_showing_def)
  have p1: "probes (snd (snd (login_usernameLoop (page_showing id_user_input) usernameSelectors ()))) =
     map (\<lambda>c. (c, False)) (take 4 usernameSelectors) @ [(id_user_input, True)]"
    by code_simp
  have p2: "probes (snd (snd (form_nameInputLoop (page_showing text_input) nameInputSelectors ()))) =
     map (\<lambda>c. (c, False)) (take 6 nameInputSelectors) @ [(text_input, True)]"
    by code_simp
  from resolution_first_match_wins[where B = "page_showing id_user_input"
      and cands = usernameSelectors and m = id_user_input and w = "()"] l1 l2
  have "fst (login_usernameLoop (page_showing id_user_input) usernameSelectors ()) =
     Returns (Some id_user_input)" by blast
  moreover from resolution_first_match_wins[where B = "page_showing text_input"
      and cands = nameInputSelectors and m = text_input and w = "()"] f1 f2
  have "fst (form_nameInputLoop (page_showing text_input) nameInputSelectors ()) =
     Returns (Some text_input)" by blast
  ultimately show ?thesis using p1 p2 by simp
qed

text \<open>
  C8. A candidate whose probe throws counts as a failed probe of that candidate only: the
  loops never throw, and when the probe of the first candidate rejects, the loop goes on
  with the remaining candidates exactly as if it had started with them, the rejection
  recorded and dropped.
\<close>

theorem throwing_probe_is_skipped:
  "(\<exists>res. fst (login_usernameLoop B cands w) = Returns res) \<and>
   (\<exists>res. fst (form_nameInputLoop B cands w) = Returns res) \<and>
   (loc_waitFor B c ''visible'' (Some 10000) w = (Throws e, w1) \<longrightarrow>
      login_usernameLoop B (c # rest) w =
        (case login_usernameLoop B rest w1 of
           (r, w2, tr) \<Rightarrow>
             (r, w2, Call (WaitFor c ''visible'' (Some 10000)) (Rejected e) # Log Debug # tr))) \<and>
   (loc_isVisible B c 5000 w = (Throws e, w1) \<longrightarrow>
      form_nameInputLoop B (c # rest) w =
        (case form_nameInputLoop B rest w1 of
           (r, w2, tr) \<Rightarrow> (r, w2, Call (IsVisible c 5000) (Rejected e) # tr)))"
proof (intro conjI impI)
  show "\<exists>res. fst (login_usernameLoop B cands w) = Returns res"
    using post_total[OF login_usernameLoop_post, of B cands w] by blast
  show "\<exists>res. fst (form_nameInputLoop B cands w) = Returns res"
    using post_total[OF form_nameInputLoop_post, of B cands w] by blast
next
  assume "loc_waitFor B c ''visible'' (Some 10000) w = (Throws e, w1)"
  then show "login_usernameLoop B (c # rest) w =
        (case login_usernameLoop B rest w1 of
           (r, w2, tr) \<Rightarrow>
             (r, w2, Call (WaitFor c ''visible'' (Some 10000)) (Rejected e) # Log Debug # tr))"
    by (simp add: locWaitFor_def js_defs split: prod.splits)
next
  assume "loc_isVisible B c 5000 w = (Throws e, w1)"
  then show "form_nameInputLoop B (c # rest) w =
        (case form_nameInputLoop B rest w1 of
           (r, w2, tr) \<Rightarrow> (r, w2, Call (IsVisible c 5000) (Rejected e) # tr))"
    by (simp add: locIsVisible_def js_defs split: prod.splits)
qed

text \<open>C8 on a page where the first selector is malformed and the second matches.\<close>

theorem throwing_probe_witness:
  "login_usernameLoop (page_rejecting (Locator ''input['') (Locator ''input''))
       [Locator ''input['', Locator ''input''] () =
     (Returns (Some (Locator ''input'')), (),
      [Call (WaitFor (Locator ''input['') ''visible'' (Some 10000)) (Rejected bad_selector),
       Log Debug,
       Call (WaitFor (Locator ''input'') ''visible'' (Some 10000)) (Resolved RUnit),
       Log Info]) \<and>
   form_nameInputLoop (page_rejecting (Locator ''input['') (Locator ''input''))
       [Locator ''input['', Locator ''input''] () =
     (Returns (Some (Locator ''input'')), (),
      [Call (IsVisible (Locator ''input['') 5000) (Rejected bad_selector),
       Call (IsVisible (Locator ''input'') 5000) (Resolved (RBool True)),
       Log Info])"
  using throwing_probe_is_skipped[where B = "page_rejecting (Locator ''input['') (Locator ''input'')"
      and c = "Locator ''input[''" and rest = "[Locator ''input'']" and e = bad_selector
      and w = "()" and ?w1.0 = "()" and cands = "[]"]
  by (simp add: page_rejecting_def blank_page_def locWaitFor_def locIsVisible_def js_defs)

text \<open>
  C3, as the specification states it, fails: the failure does not enumerate the
  candidates. On the blank page the name input resolution throws the same error, with
  the same fixed message, for a list of one candidate and for the list of eight.
\<close>

theorem not_found_same_error_for_any_list:
  "fst (form_findNameInput blank_page [formNameInput] ()) =
     Throws (new_Error ''Form name input field not found. Form may not have loaded.'') \<and>
   fst (form_findNameInput blank_page nameInputSelectors ()) =
     Throws (new_Error ''Form name input field not found. Form may not have loaded.'') \<and>
   length nameInputSelectors = 8"
  by code_simp

text \<open>
  C3, amended. When every probe of a resolution failed, each candidate of the list was
  probed exactly once, in list order (so the number of probes is the length of the list).
  The name input resolution of \<open>fillFormCreationForm\<close> then throws the error with the
  fixed message \<^verbatim>\<open>Form name input field not found. Form may not have loaded.\<close>; the
  username resolution of \<open>login\<close> then counts the email inputs as a last resort and
  throws the error with the fixed message \<^verbatim>\<open>Username field not found on the page\<close>
  when that count is zero. Neither error carries the candidates.
\<close>

theorem not_found_is_a_fixed_message:
  \<open>(form_findNameInput B cands w = (r, w1, tr) \<and> (\<forall>p \<in> set (probes tr). \<not> snd p) \<longrightarrow>
      map fst (probes tr) = cands \<and>
      r = Throws (new_Error ''Form name input field not found. Form may not have loaded.'')) \<and>
   (login_findUsernameField B cands v = (r', v1, tr') \<and> (\<forall>p \<in> set (probes tr'). \<not> snd p) \<longrightarrow>
      map fst (probes tr') = cands \<and>
      (Call (Count (Locator ''input[type="email"]'')) (Resolved (RNum 0)) \<in> set tr' \<longrightarrow>
         r' = Throws (new_Error ''Username field not found on the page'')))\<close>
proof -
  have form: "map fst (probes tr) = cands \<and>
      r = Throws (new_Error ''Form name input field not found. Form may not have loaded.'')"
    if run: "form_findNameInput B cands w = (r, w1, tr)" and fail: "\<forall>p \<in> set (probes tr). \<not> snd p"
  proof (cases r)
    case (Returns f)
    with run have "form_findNameInput B cands w = (Returns f, w1, tr)" by simp
    from post_Returns[OF form_findNameInput_post this]
    have "(f, True) \<in> set (probes tr)" by (auto dest: first_match_Some_probe)
    with fail show ?thesis by auto
  next
    case (Throws e)
    with run have "form_findNameInput B cands w = (Throws e, w1, tr)" by simp
    from post_Throws[OF form_findNameInput_post this] Throws
    show ?thesis by (auto simp: probes_append comp_def)
  qed
  have login: \<open>map fst (probes tr') = cands \<and>
      (Call (Count (Locator ''input[type="email"]'')) (Resolved (RNum 0)) \<in> set tr' \<longrightarrow>
         r' = Throws (new_Error ''Username field not found on the page''))\<close>
    if run: "login_findUsernameField B cands v = (r', v1, tr')"
      and fail: "\<forall>p \<in> set (probes tr'). \<not> snd p"
  proof (cases r')
    case (Returns f)
    with run have "login_findUsernameField B cands v = (Returns f, v1, tr')" by simp
    from post_Returns[OF login_findUsernameField_post this]
    consider (found) "probed_until_first_match cands (Some f) (probes tr')"
      | (last_resort) pre n where
          \<open>tr' = pre @ [Call (Count (Locator ''input[type="email"]'')) (Resolved (RNum n))]\<close>
          "0 < n" "probes pre = map (\<lambda>c. (c, False)) cands" "list_all probe_or_log pre"
      by blast
    then show ?thesis
    proof cases
      case found
      then have "(f, True) \<in> set (probes tr')" by (rule first_match_Some_probe)
      with fail show ?thesis by auto
    next
      case last_resort
      then show ?thesis
        by (auto simp: probes_append comp_def dest: probe_or_log_no_count)
    qed
  next
    case (Throws e)
    with run have "login_findUsernameField B cands v = (Throws e, v1, tr')" by simp
    from post_Throws[OF login_findUsernameField_post this] Throws
    show ?thesis by (auto simp: probes_append comp_def dest: probe_or_log_no_count)
  qed
  from form login show ?thesis by blast
qed

text \<open>The amended C3 on the blank page, with the selector lists of the page objects.\<close>

theorem not_found_witness:
  "map fst (probes (snd (snd (form_findNameInput blank_page nameInputSelectors ())))) =
     nameInputSelectors \<and>
   fst (form_findNameInput blank_page nameInputSelectors ()) =
     Throws (new_Error ''Form name input field not found. Form may not have loaded.'') \<and>
   map fst (probes (snd (snd (login_findUsernameField blank_page usernameSelectors ())))) =
     usernameSelectors \<and>
   fst (login_findUsernameField blank_page usernameSelectors ()) =
     Throws (new_Error ''Username field not found on the page'')"
proof -
  let ?F = "form_findNameInput blank_page nameInputSelectors ()"
  let ?L = "login_findUsernameField blank_page usernameSelectors ()"
  have f: "\<forall>p \<in> set (probes (snd (snd ?F))). \<not> snd p" by code_simp
  have l: "\<forall>p \<in> set (probes (snd (snd ?L))). \<not> snd p" by code_simp
  have c: \<open>Call (Count (Locator ''input[type="email"]'')) (Resolved (RNum 0)) \<in> set (snd (snd ?L))\<close>
    by code_simp
  have runF: "?F = (fst ?F, fst (snd ?F), snd (snd ?F))" by (simp add: prod_eq_iff)
  have runL: "?L = (fst ?L, fst (snd ?L), snd (snd ?L))" by (simp add: prod_eq_iff)
  have "map fst (probes (snd (snd ?F))) = nameInputSelectors \<and>
        fst ?F = Throws (new_Error ''Form name input field not found. Form may not have loaded.'')"
    by (rule mp[OF conjunct1[OF not_found_is_a_fixed_message[where B = blank_page
            and cands = nameInputSelectors and w = "()" and r = "fst ?F"
            and ?w1.0 = "fst (snd ?F)" and tr = "snd (snd ?F)"]]])
       (intro conjI runF f)
  moreover
  have \<open>map fst (probes (snd (snd ?L))) = usernameSelectors \<and>
        (Call (Count (Locator ''input[type="email"]'')) (Resolved (RNum 0)) \<in> set (snd (snd ?L)) \<longrightarrow>
         fst ?L = Throws (new_Error ''Username field not found on the page''))\<close>
    by (rule mp[OF conjunct2[OF not_found_is_a_fixed_message[where B = blank_page
            and cands = usernameSelectors and v = "()" and r' = "fst ?L"
            and ?v1.0 = "fst (snd ?L)" and tr' = "snd (snd ?L)"]]])
       (intro conjI runL l)
  with c have "map fst (probes (snd (snd ?L))) = usernameSelectors \<and>
        fst ?L = Throws (new_Error ''Username field not found on the page'')"
    by blast
  ultimately show ?thesis by simp
qed

subsection \<open>The diagnostic screenshot\<close>

text \<open>
  C2, as the specification states it, fails: a failure of the capture is not logged.
  On a page whose screenshot fails, the name input resolution probes its eight
  candidates, attempts the screenshot, and throws the not-found error; the rejected
  screenshot is the last event and the resolution writes no log line at all.
\<close>

theorem form_snapshot_failure_not_logged:
  "form_findNameInput full_disk_page nameInputSelectors () =
     (Throws (new_Error ''Form name input field not found. Form may not have loaded.''), (),
      map (\<lambda>c. Call (IsVisible c 5000) (Resolved (RBool False))) nameInputSelectors @
      [Call (Screenshot ''test-results/form-input-not-found.png'') (Rejected disk_full)]) \<and>
   log_lines (snd (snd (form_findNameInput full_disk_page nameInputSelectors ()))) = []"
  by code_simp

text \<open>
  C2, amended. On the not-found path of \<open>fillFormCreationForm\<close> the screenshot never
  throws to the caller: its failure is discarded silently (nothing is logged), and the
  caller receives the not-found error. The only error the resolution ever throws is the
  not-found error, and whenever the screenshot was attempted, resolved or rejected, it
  is the last event before that error is thrown.
\<close>

theorem form_snapshot_failure_is_swallowed:
  assumes "form_findNameInput B cands w = (r, w1, tr)"
  shows "(\<forall>e. r = Throws e \<longrightarrow>
            e = new_Error ''Form name input field not found. Form may not have loaded.'') \<and>
         (\<forall>x. Call (Screenshot ''test-results/form-input-not-found.png'') x \<in> set tr \<longrightarrow>
            r = Throws (new_Error ''Form name input field not found. Form may not have loaded.'') \<and>
            last tr = Call (Screenshot ''test-results/form-input-not-found.png'') x)"
proof (cases r)
  case (Returns f)
  with assms have "form_findNameInput B cands w = (Returns f, w1, tr)" by simp
  from post_Returns[OF form_findNameInput_post this] Returns
  show ?thesis by (auto dest: probe_or_log_no_screenshot)
next
  case (Throws e)
  with assms have "form_findNameInput B cands w = (Throws e, w1, tr)" by simp
  from post_Throws[OF form_findNameInput_post this] Throws
  show ?thesis by (auto dest: probe_or_log_no_screenshot)
qed

text \<open>The amended C2 on the page whose screenshot fails.\<close>

theorem form_snapshot_failure_witness:
  "fst (form_findNameInput full_disk_page nameInputSelectors ()) =
     Throws (new_Error ''Form name input field not found. Form may not have loaded.'') \<and>
   last (snd (snd (form_findNameInput full_disk_page nameInputSelectors ()))) =
     Call (Screenshot ''test-results/form-input-not-found.png'') (Rejected disk_full)"
proof -
  let ?F = "form_findNameInput full_disk_page nameInputSelectors ()"
  have run: "?F = (fst ?F, fst (snd ?F), snd (snd ?F))" by (simp add: prod_eq_iff)
  have shot: "Call (Screenshot ''test-results/form-input-not-found.png'') (Rejected disk_full)
          \<in> set (snd (snd ?F))" by code_simp
  from form_snapshot_failure_is_swallowed[OF run] shot
  show ?thesis by blast
qed

text \<open>
  The password block of \<open>login\<close> awaits its screenshot without a handler: on the same
  page the caller receives the error of the screenshot.
\<close>

lemma login_snapshot_failure_escapes:
  "fst (login_passwordLastResort full_disk_page ()) = Throws disk_full"
  by code_simp

subsection \<open>BasePage helpers\<close>

text \<open>
  C9. For every locator, timeout and browser, \<open>isElementVisible\<close> returns a boolean and
  never throws: the boolean is true exactly when the underlying wait for the
  \<^verbatim>\<open>visible\<close> state (with the given timeout, 5000 ms when none is given) resolves,
  and false whenever that wait rejects.
\<close>

theorem isElementVisible_total:
  "\<exists>w1 tr. isElementVisible B locator timeout_arg w =
     (Returns (fst (loc_waitFor B locator ''visible''
                      (Some (case timeout_arg of None \<Rightarrow> 5000 | Some t \<Rightarrow> t)) w) = Returns ()),
      w1, tr)"
  by (simp add: isElementVisible_def js_try_catch_def js_seq_def js_bind_def locWaitFor_def
      await_call_def logger_def js_return_def Let_def split: prod.splits completion.splits)

text \<open>C9 on a page that shows one element: visible for it, not visible for another.\<close>

theorem isElementVisible_witness:
  "fst (isElementVisible (page_showing (Locator ''#go'')) (Locator ''#go'') None ()) = Returns True \<and>
   fst (isElementVisible (page_showing (Locator ''#go'')) (Locator ''#stop'') (Some 3000) ()) = Returns False"
  using isElementVisible_total[of "page_showing (Locator ''#go'')" "Locator ''#go''" None "()"]
    isElementVisible_total[of "page_showing (Locator ''#go'')" "Locator ''#stop''" "Some 3000" "()"]
  by (auto simp: page_showing_def blank_page_def)

text \<open>
  C10. \<open>fillInput\<close> checks what it filled in. When it returns, it has waited for the
  element, cleared it, filled in the text and, unless \<^verbatim>\<open>options.validate\<close> is
  \<^verbatim>\<open>false\<close>, read the value back and found it equal to the text. A value read back
  that differs from the text makes it throw the validation error naming both. The value
  is read back only when \<^verbatim>\<open>validate\<close> is not \<^verbatim>\<open>false\<close>, and then always once the
  fill succeeded.
\<close>

theorem fillInput_reads_back:
  assumes "fillInput B l text options w = (r, w1, tr)"
  shows "(r = Returns () \<longrightarrow>
            tr = [Call (WaitFor l ''visible''
                          (Some (case fill_timeout options of None \<Rightarrow> 30000 | Some t \<Rightarrow> t)))
                    (Resolved RUnit),
                  Log Info, Call (Clear l) (Resolved RUnit), Call (Fill l text) (Resolved RUnit)] @
                 (if validate options \<noteq> Some False
                  then [Call (InputValue l) (Resolved (RStr text))] else []) @
                 [Log Info]) \<and>
         (\<forall>v. Call (InputValue l) (Resolved (RStr v)) \<in> set tr \<and> v \<noteq> text \<longrightarrow>
              r = Throws (validation_error text v)) \<and>
         ((\<exists>x. Call (InputValue l) x \<in> set tr) \<longrightarrow> validate options \<noteq> Some False) \<and>
         (validate options \<noteq> Some False \<and> Call (Fill l text) (Resolved RUnit) \<in> set tr \<longrightarrow>
            (\<exists>x. Call (InputValue l) x \<in> set tr))"
proof (cases r)
  case (Returns u)
  with assms have run: "fillInput B l text options w = (Returns u, w1, tr)" by simp
  note tr = post_Returns[OF fillInput_post run]
  show ?thesis
    unfolding tr using Returns by simp
next
  case (Throws e)
  with assms have run: "fillInput B l text options w = (Throws e, w1, tr)" by simp
  note t = post_Throws[OF fillInput_post run]
  from t have t1: "\<And>v. Call (InputValue l) (Resolved (RStr v)) \<in> set tr \<Longrightarrow>
                  v \<noteq> text \<and> e = validation_error text v" by simp
  from t have t2: "(\<exists>x. Call (InputValue l) x \<in> set tr) \<longrightarrow> validate options \<noteq> Some False"
    by simp
  from t have t3: "validate options \<noteq> Some False \<and> Call (Fill l text) (Resolved RUnit) \<in> set tr \<longrightarrow>
                (\<exists>x. Call (InputValue l) x \<in> set tr)" by simp
  show ?thesis
  proof (intro conjI)
    show "r = Returns () \<longrightarrow>
            tr = [Call (WaitFor l ''visible''
                          (Some (case fill_timeout options of None \<Rightarrow> 30000 | Some t \<Rightarrow> t)))
                    (Resolved RUnit),
                  Log Info, Call (Clear l) (Resolved RUnit), Call (Fill l text) (Resolved RUnit)] @
                 (if validate options \<noteq> Some False
                  then [Call (InputValue l) (Resolved (RStr text))] else []) @
                 [Log Info]" using Throws by simp
    show "\<forall>v. Call (InputValue l) (Resolved (RStr v)) \<in> set tr \<and> v \<noteq> text \<longrightarrow>
              r = Throws (validation_error text v)" using t1 Throws by blast
    show "(\<exists>x. Call (InputValue l) x \<in> set tr) \<longrightarrow> validate options \<noteq> Some False" by (rule t2)
    show "validate options \<noteq> Some False \<and> Call (Fill l text) (Resolved RUnit) \<in> set tr \<longrightarrow>
            (\<exists>x. Call (InputValue l) x \<in> set tr)" by (rule t3)
  qed
qed

text \<open>
  C10 on an input that keeps two characters (the read-back differs and the error is
  thrown) and on one that keeps twenty.
\<close>

theorem fillInput_reads_back_witness:
  "fst (fillInput (maxlength_input 2) (Locator ''#name'') ''abc'' default_fill []) =
     Throws (validation_error ''abc'' ''ab'') \<and>
   fst (fillInput (maxlength_input 20) (Locator ''#name'') ''abc'' default_fill []) = Returns ()"
proof -
  let ?short = "fillInput (maxlength_input 2) (Locator ''#name'') ''abc'' default_fill []"
  have "Call (InputValue (Locator ''#name'')) (Resolved (RStr ''ab'')) \<in> set (snd (snd ?short))"
    by code_simp
  with fillInput_reads_back[of "maxlength_input 2" "Locator ''#name''" "''abc''" default_fill "[]"
      "fst ?short" "fst (snd ?short)" "snd (snd ?short)"]
  have "fst ?short = Throws (validation_error ''abc'' ''ab'')" by simp
  moreover have "fst (fillInput (maxlength_input 20) (Locator ''#name'') ''abc'' default_fill []) =
    Returns ()" by code_simp
  ultimately show ?thesis by simp
qed

end
